theory Spec2Isabelle
  imports
    Complex_Main
    "HOL-Library.Sublist"
    "HOL-Library.Log_Nat"
    "HOL-Library.Char_ord"
    "HOL-Library.List_Lexorder"
begin

section \<open>Python strings\<close>

text \<open>
  The two stages work on Python \<open>str\<close> values.  They are modelled as \<open>string\<close>
  (lists of 8-bit characters), read as ASCII text: a character above 127 is
  neither a digit, a letter nor white space here.  Python's Unicode-aware
  behaviour on non-ASCII text (\<open>\d\<close> and \<open>float\<close> on non-ASCII digits, case
  mappings of non-ASCII letters) is outside the model.
\<close>

text \<open>White space as \<open>str.strip()\<close>, \<open>str.split()\<close> and the regular expression
  \<open>\s\<close> see it: TAB, LF, VT, FF, CR, FS, GS, RS, US and the blank.\<close>

definition is_space :: "char \<Rightarrow> bool" where
  "is_space c \<longleftrightarrow> c \<in> set [CHR 0x09, CHR 0x0A, CHR 0x0B, CHR 0x0C, CHR 0x0D,
                              CHR 0x1C, CHR 0x1D, CHR 0x1E, CHR 0x1F, CHR '' '']"

text \<open>White space as \<open>float()\<close> and \<open>int()\<close> skip it around an ASCII literal
  (the C locale's \<open>isspace\<close>): the separators FS to US are not part of it.\<close>

definition c_isspace :: "char \<Rightarrow> bool" where
  "c_isspace c \<longleftrightarrow> c \<in> set [CHR 0x09, CHR 0x0A, CHR 0x0B, CHR 0x0C, CHR 0x0D, CHR '' '']"

definition is_digit :: "char \<Rightarrow> bool" where
  "is_digit c \<longleftrightarrow> c \<in> set ''0123456789''"

text \<open>\<open>str.translate(str.maketrans(frm, to))\<close>, character by character.\<close>

definition translate_char :: "string \<Rightarrow> string \<Rightarrow> char \<Rightarrow> char" where
  "translate_char frm to c = (case map_of (zip frm to) c of Some d \<Rightarrow> d | None \<Rightarrow> c)"

definition translate :: "string \<Rightarrow> string \<Rightarrow> string \<Rightarrow> string" where
  "translate frm to s = map (translate_char frm to) s"

definition ascii_lowercase :: string where
  "ascii_lowercase = ''abcdefghijklmnopqrstuvwxyz''"

definition ascii_uppercase :: string where
  "ascii_uppercase = ''ABCDEFGHIJKLMNOPQRSTUVWXYZ''"

definition upper :: "string \<Rightarrow> string" where
  "upper s = translate ascii_lowercase ascii_uppercase s"

definition lower :: "string \<Rightarrow> string" where
  "lower s = translate ascii_uppercase ascii_lowercase s"

text \<open>\<open>s.strip()\<close> and \<open>s.rstrip(chars)\<close>.\<close>

definition rstrip_chars :: "string \<Rightarrow> string \<Rightarrow> string" where
  "rstrip_chars chars s = rev (dropWhile (\<lambda>c. c \<in> set chars) (rev s))"

definition strip :: "string \<Rightarrow> string" where
  "strip s = rev (dropWhile is_space (rev (dropWhile is_space s)))"

text \<open>\<open>s.replace(c, "")\<close> and \<open>s.replace(c, d)\<close> for one-character strings.\<close>

definition remove_char :: "char \<Rightarrow> string \<Rightarrow> string" where
  "remove_char c s = filter (\<lambda>x. x \<noteq> c) s"

definition replace_char :: "char \<Rightarrow> char \<Rightarrow> string \<Rightarrow> string" where
  "replace_char c d s = map (\<lambda>x. if x = c then d else x) s"

text \<open>\<open>w in s\<close>: \<open>w\<close> occurs in \<open>s\<close> as a contiguous substring.\<close>

fun contains :: "string \<Rightarrow> string \<Rightarrow> bool" where
  "contains [] w = (w = [])"
| "contains (c # cs) w = (prefix w (c # cs) \<or> contains cs w)"

definition startswith :: "string \<Rightarrow> string \<Rightarrow> bool" where
  "startswith s p = prefix p s"

definition endswith_char :: "string \<Rightarrow> char \<Rightarrow> bool" where
  "endswith_char s c \<longleftrightarrow> s \<noteq> [] \<and> last s = c"

text \<open>\<open>s.split()\<close>: the maximal runs of characters that are not white space.\<close>

fun split_acc :: "string \<Rightarrow> string \<Rightarrow> string list" where
  "split_acc w [] = (if w = [] then [] else [w])"
| "split_acc w (c # cs) =
     (if is_space c then (if w = [] then split_acc [] cs else w # split_acc [] cs)
      else split_acc (w @ [c]) cs)"

definition split :: "string \<Rightarrow> string list" where
  "split s = split_acc [] s"

text \<open>\<open>s.isdigit()\<close> on ASCII text.\<close>

definition isdigit :: "string \<Rightarrow> bool" where
  "isdigit s \<longleftrightarrow> s \<noteq> [] \<and> (\<forall>c \<in> set s. is_digit c)"

text \<open>Truthiness of a string, and \<open>d.get(key, default)\<close> on an optional field.\<close>

definition truthy :: "string \<Rightarrow> bool" where
  "truthy s \<longleftrightarrow> s \<noteq> []"

definition get :: "'a option \<Rightarrow> 'a \<Rightarrow> 'a" where
  "get v dflt = (case v of Some x \<Rightarrow> x | None \<Rightarrow> dflt)"

section \<open>Python numbers\<close>

subsection \<open>Integers\<close>

text \<open>Python's \<open>int\<close> is unbounded: it is HOL's \<open>int\<close>.  \<open>int(s)\<close> and \<open>float(s)\<close>
  accept single underscores between digits; \<open>strip_underscores\<close> removes them and
  fails on any other underscore, as CPython does before it reads the number.\<close>

fun strip_underscores_from :: "bool \<Rightarrow> string \<Rightarrow> string option" where
  "strip_underscores_from prev_digit [] = Some []"
| "strip_underscores_from prev_digit (c # cs) =
     (if c = CHR ''_'' then
        (case cs of
           [] \<Rightarrow> None
         | d # _ \<Rightarrow> if prev_digit \<and> is_digit d then strip_underscores_from False cs else None)
      else map_option ((#) c) (strip_underscores_from (is_digit c) cs))"

definition strip_underscores :: "string \<Rightarrow> string option" where
  "strip_underscores s = strip_underscores_from False s"

definition digit_val :: "char \<Rightarrow> nat" where
  "digit_val c = of_char c - 48"

definition nat_of_digits :: "string \<Rightarrow> nat" where
  "nat_of_digits ds = foldl (\<lambda>a c. 10 * a + digit_val c) 0 ds"

definition c_strip :: "string \<Rightarrow> string" where
  "c_strip s = rev (dropWhile c_isspace (rev (dropWhile c_isspace s)))"

text \<open>An optional sign: the sign read (\<open>True\<close> for minus) and the rest.\<close>

definition read_sign :: "string \<Rightarrow> bool \<times> string" where
  "read_sign s =
     (case s of
        [] \<Rightarrow> (False, [])
      | c # cs \<Rightarrow> if c = CHR ''-'' then (True, cs) else if c = CHR ''+'' then (False, cs)
                 else (False, s))"

text \<open>\<open>int(s)\<close> in base 10; \<open>None\<close> stands for the \<open>ValueError\<close>.\<close>

definition py_int :: "string \<Rightarrow> int option" where
  "py_int s =
     (case strip_underscores (c_strip s) of
        None \<Rightarrow> None
      | Some t \<Rightarrow>
          (let (neg, ds) = read_sign t
           in if isdigit ds then Some (if neg then - int (nat_of_digits ds)
                                       else int (nat_of_digits ds))
              else None))"

subsection \<open>Floats\<close>

text \<open>
  A Python \<open>float\<close> is an IEEE 754 binary64 value.  A finite one is given by the
  rational number it denotes; the sign of zero is not kept (it could only show in
  the text of a formatted negative zero, and the one value the normaliser formats
  is a difference it has found positive).  Every operation computes the exact
  rational result and rounds it to the nearest binary64 value, ties to even.
\<close>

datatype pyfloat = Finite rat | PInf | NInf | NaN

text \<open>Round half to even, to an integer.\<close>

definition round_half_even :: "rat \<Rightarrow> int" where
  "round_half_even x =
     (let f = \<lfloor>x\<rfloor>; d = x - of_int f
      in if d < 1 / 2 then f else if 1 / 2 < d then f + 1
         else if even f then f else f + 1)"

text \<open>\<open>\<lfloor>log\<^sub>2 a\<rfloor>\<close> for a positive rational.\<close>

definition ilog2 :: "rat \<Rightarrow> int" where
  "ilog2 a =
     (let (n, d) = quotient_of a; k = bitlen n - bitlen d
      in if power_int 2 k \<le> a then k else k - 1)"

text \<open>The binary64 value nearest to a rational: 53 significant bits, exponents
  down to \<open>-1022\<close> (below that the spacing stays \<open>2 powi -1074\<close>), overflow to an
  infinity from \<open>2 ^ 1024\<close> on.\<close>

definition rn :: "rat \<Rightarrow> pyfloat" where
  "rn q =
     (if q = 0 then Finite 0
      else
        let a = \<bar>q\<bar>;
            e = max (ilog2 a) (- 1022);
            u = power_int 2 (e - 52);
            r = of_int (round_half_even (a / u)) * u
        in if 2 ^ 1024 \<le> r then (if q < 0 then NInf else PInf)
           else Finite (if q < 0 then - r else r))"

text \<open>\<open>float(s)\<close>; \<open>None\<close> stands for the \<open>ValueError\<close>.  After the white space and
  the underscores: an optional sign, then \<open>inf\<close>, \<open>infinity\<close> or \<open>nan\<close> in any case,
  or digits with an optional point and an optional exponent.\<close>

definition read_exponent :: "string \<Rightarrow> int option" where
  "read_exponent s =
     (case s of
        [] \<Rightarrow> Some 0
      | c # cs \<Rightarrow>
          if c = CHR ''e'' \<or> c = CHR ''E'' then
            (let (neg, ds) = read_sign cs
             in if isdigit ds then Some (if neg then - int (nat_of_digits ds)
                                         else int (nat_of_digits ds))
                else None)
          else None)"

definition read_number :: "string \<Rightarrow> rat option" where
  "read_number s =
     (let ip = takeWhile is_digit s;
          r1 = dropWhile is_digit s;
          has_point = (r1 \<noteq> [] \<and> hd r1 = CHR ''.'');
          fp = (if has_point then takeWhile is_digit (tl r1) else []);
          r2 = (if has_point then dropWhile is_digit (tl r1) else r1)
      in if ip = [] \<and> fp = [] then None
         else
           (case read_exponent r2 of
              None \<Rightarrow> None
            | Some e \<Rightarrow>
                Some (of_nat (nat_of_digits (ip @ fp)) * power_int 10 (e - int (length fp)))))"

definition py_float :: "string \<Rightarrow> pyfloat option" where
  "py_float s =
     (case strip_underscores (c_strip s) of
        None \<Rightarrow> None
      | Some t \<Rightarrow>
          (let (neg, body) = read_sign t
           in if lower body = ''inf'' \<or> lower body = ''infinity''
              then Some (if neg then NInf else PInf)
              else if lower body = ''nan'' then Some NaN
              else
                (case read_number body of
                   None \<Rightarrow> None
                 | Some q \<Rightarrow> Some (rn (if neg then - q else q)))))"

text \<open>The conversion of an \<open>int\<close> operand in \<open>float / int\<close>; \<open>None\<close> stands for
  \<open>OverflowError: int too large to convert to float\<close>.\<close>

definition int_to_float :: "int \<Rightarrow> pyfloat option" where
  "int_to_float i = (case rn (of_int i) of Finite r \<Rightarrow> Some (Finite r) | _ \<Rightarrow> None)"

text \<open>Comparisons: every comparison with a NaN is false.\<close>

fun flt :: "pyfloat \<Rightarrow> pyfloat \<Rightarrow> bool" where
  "flt NaN _ = False"
| "flt _ NaN = False"
| "flt (Finite a) (Finite b) = (a < b)"
| "flt NInf NInf = False"
| "flt NInf _ = True"
| "flt _ NInf = False"
| "flt PInf _ = False"
| "flt (Finite a) PInf = True"

definition fgt :: "pyfloat \<Rightarrow> pyfloat \<Rightarrow> bool" where
  "fgt x y = flt y x"

definition feq :: "pyfloat \<Rightarrow> pyfloat \<Rightarrow> bool" where
  "feq x y \<longleftrightarrow> x \<noteq> NaN \<and> x = y"

definition fge :: "pyfloat \<Rightarrow> pyfloat \<Rightarrow> bool" where
  "fge x y \<longleftrightarrow> fgt x y \<or> feq x y"

text \<open>Arithmetic.  \<open>fdiv\<close> is \<open>x / y\<close>; \<open>None\<close> stands for \<open>ZeroDivisionError\<close>.\<close>

fun fabs :: "pyfloat \<Rightarrow> pyfloat" where
  "fabs (Finite a) = Finite \<bar>a\<bar>"
| "fabs PInf = PInf"
| "fabs NInf = PInf"
| "fabs NaN = NaN"

fun fsub :: "pyfloat \<Rightarrow> pyfloat \<Rightarrow> pyfloat" where
  "fsub NaN _ = NaN"
| "fsub _ NaN = NaN"
| "fsub (Finite a) (Finite b) = rn (a - b)"
| "fsub PInf PInf = NaN"
| "fsub NInf NInf = NaN"
| "fsub PInf _ = PInf"
| "fsub NInf _ = NInf"
| "fsub (Finite a) PInf = NInf"
| "fsub (Finite a) NInf = PInf"

fun fdiv :: "pyfloat \<Rightarrow> pyfloat \<Rightarrow> pyfloat option" where
  "fdiv x (Finite b) =
     (if b = 0 then None
      else Some (case x of
                   Finite a \<Rightarrow> rn (a / b)
                 | PInf \<Rightarrow> if 0 < b then PInf else NInf
                 | NInf \<Rightarrow> if 0 < b then NInf else PInf
                 | NaN \<Rightarrow> NaN))"
| "fdiv NaN _ = Some NaN"
| "fdiv _ NaN = Some NaN"
| "fdiv (Finite a) _ = Some (Finite 0)"
| "fdiv _ _ = Some NaN"

text \<open>\<open>round(x, 2)\<close>: the decimal with two places nearest to the exact value of
  \<open>x\<close> (ties to even), converted back to binary64; an infinity or a NaN is
  returned as it is.\<close>

fun round2 :: "pyfloat \<Rightarrow> pyfloat" where
  "round2 (Finite a) = rn (of_int (round_half_even (a * 100)) / 100)"
| "round2 x = x"

text \<open>\<open>f"{x:.2f}"\<close>: the same decimal, written out.\<close>

definition digit_char :: "nat \<Rightarrow> char" where
  "digit_char n = ''0123456789'' ! (n mod 10)"

fun str_nat :: "nat \<Rightarrow> string" where
  "str_nat n = (if n < 10 then [digit_char n] else str_nat (n div 10) @ [digit_char (n mod 10)])"

fun fmt2f :: "pyfloat \<Rightarrow> string" where
  "fmt2f (Finite a) =
     (let k = nat (round_half_even (\<bar>a\<bar> * 100))
      in (if a < 0 then ''-'' else '''') @ str_nat (k div 100) @ ''.'' @
         [digit_char (k mod 100 div 10), digit_char (k mod 10)])"
| "fmt2f PInf = ''inf''"
| "fmt2f NInf = ''-inf''"
| "fmt2f NaN = ''nan''"

section \<open>The line normaliser (\<open>services/receipt_parser.py\<close>)\<close>

text \<open>
  A receipt line is a Python dict.  The normaliser reads and writes six of its
  keys; a key that is absent is \<open>None\<close>.  The values are strings, and a Boolean
  for \<open>tpd\<close>.  The lines of one receipt are distinct objects (they come out of
  one JSON document or are built one by one), so an update of the item at the
  end of \<open>merged\<close> is an update of that list element and of nothing else.
\<close>

record line =
  name :: "string option"
  price :: "string option"
  qty :: "string option"
  item_number :: "string option"
  tpd :: "bool option"
  original_price :: "string option"

text \<open>The exceptions that no handler of \<open>_post_process\<close> catches.  A
  \<open>ValueError\<close> of \<open>int()\<close> or \<open>float()\<close> is always caught where it is raised: it is
  the \<open>None\<close> of \<open>py_int\<close> and \<open>py_float\<close>.\<close>

datatype py_error = KeyError | OverflowError

subsection \<open>The regular expressions\<close>

text \<open>\<open>re.match(r"^(\d+)\s*@\s*[\d.]+", name)\<close>: the group, when the name matches.
  The character classes that follow one another are disjoint, so the greedy
  match is the only candidate.\<close>

definition qty_match :: "string \<Rightarrow> string option" where
  "qty_match s =
     (let ds = takeWhile is_digit s;
          r1 = dropWhile is_space (dropWhile is_digit s)
      in if ds \<noteq> [] \<and> r1 \<noteq> [] \<and> hd r1 = CHR ''@'' \<and>
            (let r2 = dropWhile is_space (tl r1)
             in r2 \<noteq> [] \<and> (is_digit (hd r2) \<or> hd r2 = CHR ''.''))
         then Some ds else None)"

text \<open>\<open>L\d+\s*MEMBER\<close> and \<open>N\d+\s*MEMBER\<close>, on the upper-cased name.\<close>

definition member_match :: "char \<Rightarrow> string \<Rightarrow> bool" where
  "member_match c u \<longleftrightarrow>
     u \<noteq> [] \<and> hd u = c \<and> takeWhile is_digit (tl u) \<noteq> [] \<and>
     prefix ''MEMBER'' (dropWhile is_space (dropWhile is_digit (tl u)))"

text \<open>\<open>_NOISE_PATTERNS.match(name)\<close>, compiled with \<open>re.IGNORECASE\<close>.\<close>

definition noise_match :: "string \<Rightarrow> bool" where
  "noise_match s \<longleftrightarrow>
     (let u = upper s
      in (prefix ''AGE'' u \<and> prefix ''VERIFIED'' (dropWhile is_space (drop 3 u))) \<or>
         prefix ''DEPOSIT'' u \<or>
         member_match CHR ''L'' u \<or>
         member_match CHR ''N'' u \<or>
         qty_match s \<noteq> None)"

text \<open>\<open>re.match(r"^([\dOoBbIlSsGg]{4,8})\s+", n)\<close>: the group, when the name
  matches.  No character of the class is white space, so a match takes the whole
  leading run of class characters.\<close>

definition ocr_class :: "char \<Rightarrow> bool" where
  "ocr_class c \<longleftrightarrow> is_digit c \<or> c \<in> set ''OoBbIlSsGg''"

definition item_number_match :: "string \<Rightarrow> string option" where
  "item_number_match n =
     (let raw = takeWhile ocr_class n; rest = dropWhile ocr_class n
      in if 4 \<le> length raw \<and> length raw \<le> 8 \<and> rest \<noteq> [] \<and> is_space (hd rest)
         then Some raw else None)"

subsection \<open>First loop: noise filtering and the pending quantity\<close>

definition has_tpd_marker :: "string \<Rightarrow> bool" where
  "has_tpd_marker nm \<longleftrightarrow> contains (upper nm) ''TPD/''"

text \<open>One iteration: the state is \<open>cleaned\<close> and \<open>pending_qty\<close>.\<close>

definition noise_step :: "line list \<times> string option \<Rightarrow> line \<Rightarrow> line list \<times> string option" where
  "noise_step st item =
     (let cleaned = fst st; pending_qty = snd st;
          nm = strip (get (name item) '''');
          price_str = strip (get (price item) ''0'')
      in case qty_match nm of
           Some g \<Rightarrow> (cleaned, Some g)
         | None \<Rightarrow>
             if noise_match nm then (cleaned, pending_qty)
             else if \<not> has_tpd_marker nm \<and>
                     (\<not> truthy price_str \<or> price_str \<in> set [''0'', ''0.00'', ''''])
             then (cleaned, pending_qty)
             else if (case pending_qty of None \<Rightarrow> False | Some q \<Rightarrow> truthy q) \<and>
                     \<not> has_tpd_marker nm
             then (cleaned @ [item\<lparr>qty := pending_qty\<rparr>], None)
             else (cleaned @ [item], pending_qty))"

definition noise_loop :: "line list \<Rightarrow> line list" where
  "noise_loop items = fst (foldl noise_step ([], None) items)"

subsection \<open>Second loop: folding discount lines, finalising items\<close>

definition price_noise_chars :: string where
  "price_noise_chars = ''abcdefghijklmnopqrstuvwxyzABCDEFGHIJKLMNOPQRSTUVWXYZ @#*''"

definition clean_price_of :: "line \<Rightarrow> string" where
  "clean_price_of item = rstrip_chars price_noise_chars (strip (get (price item) ''0''))"

definition is_discount_line :: "line \<Rightarrow> bool" where
  "is_discount_line item \<longleftrightarrow>
     has_tpd_marker (get (name item) '''') \<or> endswith_char (clean_price_of item) CHR ''-''"

text \<open>The \<open>try\<close> block of a discount line, on the previous item \<open>prev\<close>: the new
  \<open>prev\<close>.  \<open>float(clean_price.replace("-", ""))\<close> is evaluated first, then
  \<open>prev["price"]\<close>.\<close>

definition fold_discount :: "line \<Rightarrow> string \<Rightarrow> py_error + line" where
  "fold_discount prev clean_price =
     (case py_float (remove_char CHR ''-'' clean_price) of
        None \<Rightarrow> Inr prev
      | Some discount \<Rightarrow>
          (case price prev of
             None \<Rightarrow> Inl KeyError
           | Some prev_price \<Rightarrow>
               (case py_float prev_price of
                  None \<Rightarrow> Inr prev
                | Some orig \<Rightarrow>
                    if flt discount orig
                    then Inr (prev\<lparr>original_price := Some prev_price,
                                   price := Some (fmt2f (fsub orig discount)),
                                   tpd := Some True\<rparr>)
                    else Inr prev)))"

text \<open>The three assignments that open the finalisation of an item.\<close>

definition set_defaults :: "string \<Rightarrow> line \<Rightarrow> line" where
  "set_defaults clean_price item =
     item\<lparr>price := Some (remove_char CHR ''-'' clean_price),
          tpd := Some (get (tpd item) False),
          original_price := Some (get (original_price item) '''')\<rparr>"

text \<open>The literal \<open>0.001\<close>.\<close>

definition tolerance :: pyfloat where
  "tolerance = rn (1 / 1000)"

text \<open>The quantity check.  Its handler catches \<open>ValueError\<close> and
  \<open>ZeroDivisionError\<close>; the conversion of \<open>q\<close> in \<open>p / q\<close> can raise
  \<open>OverflowError\<close>, which it does not catch.\<close>

definition check_qty :: "line \<Rightarrow> py_error + line" where
  "check_qty item =
     (case py_int (get (qty item) ''1'') of
        None \<Rightarrow> Inr item
      | Some q \<Rightarrow>
          (case price item of
             None \<Rightarrow> Inl KeyError
           | Some price_str \<Rightarrow>
               (case py_float price_str of
                  None \<Rightarrow> Inr item
                | Some p \<Rightarrow>
                    if 1 < q then
                      (case int_to_float q of
                         None \<Rightarrow> Inl OverflowError
                       | Some qf \<Rightarrow>
                           (case fdiv p qf of
                              None \<Rightarrow> Inr item
                            | Some x \<Rightarrow>
                                if fgt (fabs (fsub x (round2 x))) tolerance
                                then Inr (item\<lparr>qty := Some ''1''\<rparr>)
                                else Inr item))
                    else Inr item)))"

text \<open>Item-number recovery.  The locals \<open>n\<close> and \<open>num\<close> are threaded with the
  item through the three \<open>if\<close> statements.\<close>

definition ocr_fix :: "string \<Rightarrow> string" where
  "ocr_fix raw = translate ''OoBbIlSsGg'' ''0088115599'' raw"

definition recover_from_name :: "line \<times> string \<times> string \<Rightarrow> line \<times> string \<times> string" where
  "recover_from_name st =
     (case st of (item, n, num) \<Rightarrow>
        if \<not> truthy num then
          (case item_number_match n of
             None \<Rightarrow> (item, n, num)
           | Some raw \<Rightarrow>
               if isdigit (ocr_fix raw)
               then (item\<lparr>item_number := Some (ocr_fix raw),
                          name := Some (strip (drop (length raw) n))\<rparr>,
                     strip (drop (length raw) n), ocr_fix raw)
               else (item, n, num))
        else (item, n, num))"

definition clear_long_number :: "line \<times> string \<times> string \<Rightarrow> line \<times> string \<times> string" where
  "clear_long_number st =
     (case st of (item, n, num) \<Rightarrow>
        if truthy num \<and> 8 < length num then (item\<lparr>item_number := Some ''''\<rparr>, n, '''')
        else (item, n, num))"

definition strip_number_prefix :: "line \<times> string \<times> string \<Rightarrow> line" where
  "strip_number_prefix st =
     (case st of (item, n, num) \<Rightarrow>
        if truthy num \<and> startswith n num
        then item\<lparr>name := Some (strip (drop (length num) n))\<rparr>
        else item)"

definition recover_item_number :: "line \<Rightarrow> line" where
  "recover_item_number item =
     strip_number_prefix (clear_long_number (recover_from_name
       (item, get (name item) '''', get (item_number item) '''')))"

definition finalize :: "line \<Rightarrow> py_error + line" where
  "finalize item =
     (case check_qty (set_defaults (clean_price_of item) item) of
        Inl e \<Rightarrow> Inl e
      | Inr item' \<Rightarrow> Inr (recover_item_number item'))"

text \<open>One iteration of the second loop, on \<open>merged\<close>.\<close>

definition merge_step :: "line list \<Rightarrow> line \<Rightarrow> py_error + line list" where
  "merge_step merged item =
     (if is_discount_line item \<and> merged \<noteq> [] then
        (case fold_discount (last merged) (clean_price_of item) of
           Inl e \<Rightarrow> Inl e
         | Inr prev' \<Rightarrow> Inr (butlast merged @ [prev']))
      else
        (case finalize item of
           Inl e \<Rightarrow> Inl e
         | Inr item' \<Rightarrow> Inr (merged @ [item'])))"

fun merge_loop :: "line list \<Rightarrow> line list \<Rightarrow> py_error + line list" where
  "merge_loop merged [] = Inr merged"
| "merge_loop merged (item # items) =
     (case merge_step merged item of
        Inl e \<Rightarrow> Inl e
      | Inr merged' \<Rightarrow> merge_loop merged' items)"

definition post_process :: "line list \<Rightarrow> py_error + line list" where
  "post_process items = merge_loop [] (noise_loop items)"

section \<open>The deal matcher (\<open>services/analyzer.py\<close>)\<close>

text \<open>A deal as the storage layer returns it: \<open>item_name\<close> and \<open>sale_price\<close> are
  read with \<open>d[...]\<close>, the other keys with \<open>d.get(...)\<close>.\<close>

record deal =
  item_name :: string
  d_item_number :: "string option"
  sale_price :: string
  source :: "string option"
  link :: "string option"
  promo_end :: "string option"
  scanned_date :: "string option"

text \<open>An entry of \<open>receipt_items\<close>, as \<open>find_potential_matches\<close> builds it from the
  stored receipts.\<close>

record receipt_item =
  ri_name :: string
  ri_price :: string
  ri_original_price :: string
  ri_item_number :: string
  ri_receipt_date :: string
  ri_tpd :: bool

datatype match_kind = exact_item_number | partial_item_number | name_keyword

text \<open>A candidate as it is returned, and as it sits in \<open>ri_matches\<close> with its
  \<open>_rank\<close> key.\<close>

record candidate =
  receipt_item :: string
  receipt_price :: string
  c_original_price :: string
  receipt_item_number :: string
  receipt_date :: string
  tpd_at_purchase :: bool
  deal_name :: string
  deal_price :: string
  deal_item_number :: string
  deal_source :: string
  deal_link :: string
  deal_expiry :: string
  matched_by :: match_kind
  savings :: pyfloat

record ranked_candidate = candidate +
  rank :: nat

subsection \<open>\<open>_filter_deals\<close>\<close>

text \<open>\<open>a or b\<close> on strings.\<close>

definition py_or :: "string \<Rightarrow> string \<Rightarrow> string" where
  "py_or a b = (if truthy a then a else b)"

text \<open>The key compared with \<open>_date_from\<close>:
  \<open>d.get("promo_end") or d.get("scanned_date", "")[:10]\<close>.\<close>

definition date_from_key :: "deal \<Rightarrow> string" where
  "date_from_key d =
     (case promo_end d of
        None \<Rightarrow> take 10 (get (scanned_date d) '''')
      | Some p \<Rightarrow> py_or p (take 10 (get (scanned_date d) '''')))"

text \<open>The key compared with \<open>_date_to\<close>:
  \<open>d.get("scanned_date", "")[:10] or d.get("promo_end", "9999")\<close>.\<close>

definition date_to_key :: "deal \<Rightarrow> string" where
  "date_to_key d = py_or (take 10 (get (scanned_date d) '''')) (get (promo_end d) ''9999'')"

text \<open>The module-level filters \<open>_sources\<close>, \<open>_date_from\<close> and \<open>_date_to\<close> are
  parameters; \<open>None\<close> is Python's \<open>None\<close>.\<close>

definition filter_deals ::
  "string list option \<Rightarrow> string option \<Rightarrow> string option \<Rightarrow> deal list \<Rightarrow> deal list" where
  "filter_deals sources date_from date_to drops =
     (let filtered1 =
            (case sources of
               None \<Rightarrow> drops
             | Some srcs \<Rightarrow>
                 if srcs \<noteq> [] then filter (\<lambda>d. get (source d) '''' \<in> set srcs) drops
                 else drops);
          filtered2 =
            (case date_from of
               None \<Rightarrow> filtered1
             | Some df \<Rightarrow>
                 if truthy df then filter (\<lambda>d. df \<le> date_from_key d) filtered1
                 else filtered1)
      in case date_to of
           None \<Rightarrow> filtered2
         | Some dt \<Rightarrow>
             if truthy dt then filter (\<lambda>d. date_to_key d \<le> dt) filtered2
             else filtered2)"

subsection \<open>\<open>find_potential_matches\<close>\<close>

definition skip_words :: "string list" where
  "skip_words = [''the'', ''and'', ''for'', ''with'', ''pack'', ''size'', ''sizes'', ''plus'',
                 ''mens'', ''womens'']"

definition ri_words :: "string \<Rightarrow> string list" where
  "ri_words nm =
     filter (\<lambda>w. 4 \<le> length w \<and> w \<notin> set skip_words)
       (split (replace_char CHR ''/'' CHR '' '' (lower nm)))"

text \<open>The \<open>if\<close>/\<open>elif\<close> chain that sets \<open>matched_by\<close>; \<open>None\<close> is Python's \<open>None\<close>.\<close>

definition classify :: "string \<Rightarrow> string list \<Rightarrow> deal \<Rightarrow> match_kind option" where
  "classify ri_num words d =
     (let d_num = get (d_item_number d) '''';
          d_name = lower (item_name d)
      in if truthy ri_num \<and> truthy d_num \<and> ri_num = d_num then Some exact_item_number
         else if truthy ri_num \<and> truthy d_num \<and> 5 \<le> length ri_num \<and> 5 \<le> length d_num \<and>
                 take 5 ri_num = take 5 d_num
         then Some partial_item_number
         else if 2 \<le> length words \<and> 2 \<le> length (filter (\<lambda>w. contains d_name w) words)
         then Some name_keyword
         else if length words = 1 \<and> 5 \<le> length (hd words) \<and> contains d_name (hd words)
         then Some name_keyword
         else None)"

text \<open>The price check: the savings, or \<open>None\<close> for \<open>continue\<close>.\<close>

definition price_check :: "string \<Rightarrow> string \<Rightarrow> pyfloat option" where
  "price_check paid_str deal_str =
     (case py_float paid_str of
        None \<Rightarrow> None
      | Some paid \<Rightarrow>
          (case py_float deal_str of
             None \<Rightarrow> None
           | Some deal \<Rightarrow>
               if fge deal paid then None else Some (round2 (fsub paid deal))))"

fun match_rank :: "match_kind \<Rightarrow> nat" where
  "match_rank exact_item_number = 3"
| "match_rank partial_item_number = 2"
| "match_rank name_keyword = 1"

text \<open>The body of the loop over \<open>drops\<close>: the entry appended to \<open>ri_matches\<close>, if
  any.\<close>

definition match_deal :: "receipt_item \<Rightarrow> deal \<Rightarrow> ranked_candidate option" where
  "match_deal ri d =
     (case classify (ri_item_number ri) (ri_words (ri_name ri)) d of
        None \<Rightarrow> None
      | Some kind \<Rightarrow>
          (case price_check (ri_price ri) (sale_price d) of
             None \<Rightarrow> None
           | Some s \<Rightarrow>
               Some \<lparr>receipt_item = ri_name ri,
                     receipt_price = ri_price ri,
                     c_original_price = ri_original_price ri,
                     receipt_item_number = ri_item_number ri,
                     receipt_date = ri_receipt_date ri,
                     tpd_at_purchase = ri_tpd ri,
                     deal_name = item_name d,
                     deal_price = sale_price d,
                     deal_item_number = get (d_item_number d) '''',
                     deal_source = get (source d) '''',
                     deal_link = get (link d) '''',
                     deal_expiry = get (promo_end d) '''',
                     matched_by = kind,
                     savings = s,
                     rank = match_rank kind\<rparr>))"

definition ri_matches :: "receipt_item \<Rightarrow> deal list \<Rightarrow> ranked_candidate list" where
  "ri_matches ri drops = List.map_filter (match_deal ri) drops"

text \<open>\<open>max(ri_matches, key=lambda m: (m["savings"], m["_rank"]))\<close>.  \<open>max\<close> keeps
  the first element and replaces it by a later one whose key is greater.  Two
  tuples are compared at their first components when these are not equal, and
  at their second components otherwise.\<close>

definition sort_key_of :: "ranked_candidate \<Rightarrow> pyfloat \<times> nat" where
  "sort_key_of m = (savings m, rank m)"

definition key_gt :: "pyfloat \<times> nat \<Rightarrow> pyfloat \<times> nat \<Rightarrow> bool" where
  "key_gt k1 k2 = (if feq (fst k1) (fst k2) then snd k2 < snd k1 else fgt (fst k1) (fst k2))"

fun max_from :: "ranked_candidate \<Rightarrow> ranked_candidate list \<Rightarrow> ranked_candidate" where
  "max_from best [] = best"
| "max_from best (m # ms) =
     max_from (if key_gt (sort_key_of m) (sort_key_of best) then m else best) ms"

text \<open>The candidate kept for one receipt item; \<open>del best["_rank"]\<close> drops the
  rank.\<close>

definition best_match :: "receipt_item \<Rightarrow> deal list \<Rightarrow> candidate option" where
  "best_match ri drops =
     (case ri_matches ri drops of
        [] \<Rightarrow> None
      | m # ms \<Rightarrow> Some (candidate.truncate (max_from m ms)))"

definition candidates_of :: "receipt_item \<Rightarrow> deal list \<Rightarrow> candidate list" where
  "candidates_of ri drops = (case best_match ri drops of None \<Rightarrow> [] | Some c \<Rightarrow> [c])"

text \<open>The candidates of all receipt items, sorted by receipt date (the sort is
  stable).  The two messages the function returns in place of an empty list are
  the empty list here.\<close>

definition find_potential_matches :: "receipt_item list \<Rightarrow> deal list \<Rightarrow> candidate list" where
  "find_potential_matches receipt_items drops =
     sort_key receipt_date (concat (map (\<lambda>ri. candidates_of ri drops) receipt_items))"

section \<open>The specification's notions\<close>

text \<open>The definitions of this section follow the words of the specification, not
  the source; the theorems below compare them with the code.\<close>

text \<open>The effective date of a deal: \<open>promo_end\<close> if present, else the scan date.\<close>

definition spec_effective_date :: "deal \<Rightarrow> string" where
  "spec_effective_date d =
     (if truthy (get (promo_end d) '''') then get (promo_end d) ''''
      else take 10 (get (scanned_date d) ''''))"

text \<open>A filter is given when it is neither \<open>None\<close> nor empty.\<close>

definition given :: "'a list option \<Rightarrow> bool" where
  "given v \<longleftrightarrow> (case v of None \<Rightarrow> False | Some x \<Rightarrow> x \<noteq> [])"

text \<open>The deal filter of the specification: the source is in the allowed set, and
  the effective date lies in the closed interval from \<open>dateFrom\<close> to \<open>dateTo\<close>.\<close>

definition spec_filter_deals ::
  "string list option \<Rightarrow> string option \<Rightarrow> string option \<Rightarrow> deal list \<Rightarrow> deal list" where
  "spec_filter_deals sources date_from date_to drops =
     filter (\<lambda>d. (given sources \<longrightarrow> get (source d) '''' \<in> set (get sources [])) \<and>
                 (given date_from \<longrightarrow> get date_from '''' \<le> spec_effective_date d) \<and>
                 (given date_to \<longrightarrow> spec_effective_date d \<le> get date_to ''''))
       drops"




text \<open>The two rules on item numbers.\<close>

definition rule_exact :: "string \<Rightarrow> string \<Rightarrow> bool" where
  "rule_exact ri_num d_num \<longleftrightarrow> ri_num \<noteq> [] \<and> d_num \<noteq> [] \<and> ri_num = d_num"

definition rule_partial :: "string \<Rightarrow> string \<Rightarrow> bool" where
  "rule_partial ri_num d_num \<longleftrightarrow>
     ri_num \<noteq> [] \<and> d_num \<noteq> [] \<and> 5 \<le> length ri_num \<and> 5 \<le> length d_num \<and>
     take 5 ri_num = take 5 d_num"

text \<open>Lower case, letter by letter: the code of a capital letter plus 32.\<close>

definition lower_char :: "char \<Rightarrow> char" where
  "lower_char c =
     (if c \<in> set ''ABCDEFGHIJKLMNOPQRSTUVWXYZ'' then char_of (of_char c + (32 :: nat)) else c)"

text \<open>Splitting on white space: skip the white space, take the characters up to
  the next white space as a token, and go on behind it.\<close>

function tokens :: "string \<Rightarrow> string list" where
  "tokens s =
     (case dropWhile is_space s of
        [] \<Rightarrow> []
      | c # cs \<Rightarrow> (c # takeWhile (\<lambda>x. \<not> is_space x) cs) #
                  tokens (dropWhile (\<lambda>x. \<not> is_space x) cs))"
  by pat_completeness auto
termination
proof (relation "measure length")
  fix s :: string and c cs
  assume "dropWhile is_space s = c # cs"
  then have "length cs < length s"
    using length_dropWhile_le[of is_space s] by simp
  moreover have "length (dropWhile (\<lambda>x. \<not> is_space x) cs) \<le> length cs"
    by (rule length_dropWhile_le)
  ultimately show "(dropWhile (\<lambda>x. \<not> is_space x) cs, s) \<in> measure length" by simp
qed simp

declare tokens.simps [simp del]

text \<open>The tokens kept as keywords: the item name in lower case, \<open>/\<close> replaced by a
  blank, split on white space; the tokens of four characters or more that are
  not in the stop list.\<close>

definition stop_list :: "string set" where
  "stop_list = {''the'', ''and'', ''for'', ''with'', ''pack'', ''size'', ''sizes'', ''plus'',
                ''mens'', ''womens''}"

definition kept_tokens :: "string \<Rightarrow> string list" where
  "kept_tokens nm =
     [w \<leftarrow> tokens (map (\<lambda>c. if c = CHR ''/'' then CHR '' '' else c) (map lower_char nm)).
        4 \<le> length w \<and> w \<notin> stop_list]"

text \<open>The keyword set of the specification.\<close>

definition spec_keywords :: "string \<Rightarrow> string set" where
  "spec_keywords nm = set (kept_tokens nm)"

text \<open>The keyword rule of the specification, on the keyword set: with two
  keywords or more, at least two of them are substrings of the deal's lower-cased
  name; or there is exactly one keyword, it has five characters or more, and it
  is a substring of that name.\<close>

definition rule_keyword :: "string set \<Rightarrow> string \<Rightarrow> bool" where
  "rule_keyword K d_name \<longleftrightarrow>
     (2 \<le> card K \<and> 2 \<le> card {w \<in> K. sublist w d_name}) \<or>
     (card K = 1 \<and> (\<forall>w \<in> K. 5 \<le> length w \<and> sublist w d_name))"

text \<open>The three rules in their order of precedence.\<close>

definition spec_classify :: "string \<Rightarrow> string set \<Rightarrow> deal \<Rightarrow> match_kind option" where
  "spec_classify ri_num K d =
     (if rule_exact ri_num (get (d_item_number d) '''') then Some exact_item_number
      else if rule_partial ri_num (get (d_item_number d) '''') then Some partial_item_number
      else if rule_keyword K (map lower_char (item_name d)) then Some name_keyword
      else None)"

text \<open>The keyword rule on the list of the kept tokens, where a token that is
  repeated in the item name counts once for each occurrence: the tokens at two
  positions of the list are substrings of the deal's lower-cased name; or the
  list has one token, of five characters or more, which is a substring of it.\<close>

definition rule_keyword_tokens :: "string list \<Rightarrow> string \<Rightarrow> bool" where
  "rule_keyword_tokens ws d_name \<longleftrightarrow>
     (\<exists>i < length ws. \<exists>j < length ws.
        i < j \<and> sublist (ws ! i) d_name \<and> sublist (ws ! j) d_name) \<or>
     (case ws of [w] \<Rightarrow> 5 \<le> length w \<and> sublist w d_name | _ \<Rightarrow> False)"

definition token_classify :: "string \<Rightarrow> string list \<Rightarrow> deal \<Rightarrow> match_kind option" where
  "token_classify ri_num ws d =
     (if rule_exact ri_num (get (d_item_number d) '''') then Some exact_item_number
      else if rule_partial ri_num (get (d_item_number d) '''') then Some partial_item_number
      else if rule_keyword_tokens ws (map lower_char (item_name d)) then Some name_keyword
      else None)"

text \<open>The literal \<open>0.001\<close> as a binary64 number, and a difference that lies
  outside the tolerance on either side.\<close>

definition spec_tolerance :: rat where
  "spec_tolerance = 1152921504606847 / 1152921504606846976"

definition outside_tolerance :: "pyfloat \<Rightarrow> bool" where
  "outside_tolerance d \<longleftrightarrow> flt (Finite spec_tolerance) d \<or> flt d (Finite (- spec_tolerance))"

text \<open>A name that begins with a token of four to eight characters drawn from the
  digits and the letters \<open>O o B b I l S s G g\<close>, followed by white space.\<close>

definition begins_with_token :: "string \<Rightarrow> string \<Rightarrow> string \<Rightarrow> bool" where
  "begins_with_token n tok rest \<longleftrightarrow>
     n = tok @ rest \<and> 4 \<le> length tok \<and> length tok \<le> 8 \<and>
     (\<forall>c \<in> set tok. c \<in> set ''0123456789OoBbIlSsGg'') \<and>
     rest \<noteq> [] \<and> is_space (hd rest)"

text \<open>The fixed mapping of the confusable letters to digits.\<close>

fun spec_digit_of :: "char \<Rightarrow> char" where
  "spec_digit_of c =
     (if c = CHR ''O'' \<or> c = CHR ''o'' then CHR ''0''
      else if c = CHR ''B'' \<or> c = CHR ''b'' then CHR ''8''
      else if c = CHR ''I'' \<or> c = CHR ''l'' then CHR ''1''
      else if c = CHR ''S'' \<or> c = CHR ''s'' then CHR ''5''
      else if c = CHR ''G'' \<or> c = CHR ''g'' then CHR ''9''
      else c)"

section \<open>Sample inputs\<close>

text \<open>A raw line as the extraction delivers it: the four keys \<open>name\<close>, \<open>price\<close>,
  \<open>qty\<close> and \<open>item_number\<close>.\<close>

definition raw_line :: "string \<Rightarrow> string \<Rightarrow> string \<Rightarrow> string \<Rightarrow> line" where
  "raw_line n p q i =
     \<lparr>name = Some n, price = Some p, qty = Some q, item_number = Some i,
      tpd = None, original_price = None\<rparr>"

text \<open>The digit \<open>1\<close> followed by 309 zeros.\<close>

definition huge_qty :: string where
  "huge_qty = CHR ''1'' # replicate 309 (CHR ''0'')"

definition stored_deal :: "string \<Rightarrow> string \<Rightarrow> string \<Rightarrow> deal" where
  "stored_deal nm num sale =
     \<lparr>item_name = nm, d_item_number = Some num, sale_price = sale,
      source = Some ''cocowest.ca'', link = Some '''', promo_end = Some '''',
      scanned_date = Some ''2025-01-15T10:00:00''\<rparr>"

definition bought :: "string \<Rightarrow> string \<Rightarrow> string \<Rightarrow> receipt_item" where
  "bought nm num paid =
     \<lparr>ri_name = nm, ri_price = paid, ri_original_price = '''', ri_item_number = num,
      ri_receipt_date = ''2025-01-10'', ri_tpd = False\<rparr>"

section \<open>Facts about the float model\<close>


lemma rhe_of_int: "round_half_even (of_int n) = n"
  by (simp add: round_half_even_def)

lemma rhe_ge_int: "of_int n \<le> x \<Longrightarrow> n \<le> round_half_even x"
proof -
  assume "of_int n \<le> x"
  then have "n \<le> \<lfloor>x\<rfloor>" by (simp add: le_floor_iff)
  then show ?thesis by (auto simp add: round_half_even_def Let_def)
qed

lemma rhe_upper: "of_int (round_half_even x) \<le> x + 1 / 2"
proof -
  have "of_int \<lfloor>x\<rfloor> \<le> x" "x < of_int \<lfloor>x\<rfloor> + 1" by linarith+
  then show ?thesis
    unfolding round_half_even_def Let_def by (auto simp: not_less) linarith+
qed

lemma rhe_eval:
  assumes "of_int m - 1 / 2 < x" "x < of_int m + 1 / 2"
  shows "round_half_even x = m"
proof -
  have "\<lfloor>x\<rfloor> = m - 1 \<or> \<lfloor>x\<rfloor> = m"
    using assms by (simp add: floor_eq_iff) linarith
  then show ?thesis
    using assms by (auto simp: round_half_even_def Let_def)
qed

lemma rhe_nonneg: "0 \<le> x \<Longrightarrow> 0 \<le> round_half_even x"
  using rhe_ge_int[of 0 x] by simp

lemma pow2_int_rat: "0 \<le> k \<Longrightarrow> (of_int (2 ^ nat k) :: rat) = power_int 2 k"
  by (simp add: power_int_def)

lemma ilog2_bounds:
  assumes "0 < a"
  shows "power_int 2 (ilog2 a) \<le> a \<and> a < power_int 2 (ilog2 a + 1)"
proof -
  obtain n d where nd: "quotient_of a = (n, d)" by (cases "quotient_of a")
  have d: "0 < d" using nd quotient_of_denom_pos by blast
  have a: "a = of_int n / of_int d" using nd quotient_of_div by blast
  have n: "0 < n" using assms a d by (simp add: zero_less_divide_iff)
  define bn where "bn = bitlen n"
  define bd where "bd = bitlen d"
  have bn1: "1 \<le> bn" using bitlen_eq_zero_iff[of n] bitlen_nonneg[of n] n by (simp add: bn_def)
  have bd1: "1 \<le> bd" using bitlen_eq_zero_iff[of d] bitlen_nonneg[of d] d by (simp add: bd_def)
  have bn: "2 ^ nat (bn - 1) \<le> n" "n < 2 ^ nat bn"
    using bitlen_bounds[OF n] by (auto simp: bn_def)
  have bd: "2 ^ nat (bd - 1) \<le> d" "d < 2 ^ nat bd"
    using bitlen_bounds[OF d] by (auto simp: bd_def)
  have nr: "(of_int n :: rat) < power_int 2 bn"
    using bn(2) bn1 pow2_int_rat[of bn] by (metis of_int_less_iff order_trans zero_le_one)
  have nl: "power_int 2 (bn - 1) \<le> (of_int n :: rat)"
    using bn(1) bn1 pow2_int_rat[of "bn - 1"] by (metis of_int_le_iff diff_ge_0_iff_ge)
  have dr: "(of_int d :: rat) < power_int 2 bd"
    using bd(2) bd1 pow2_int_rat[of bd] by (metis of_int_less_iff order_trans zero_le_one)
  have dl: "power_int 2 (bd - 1) \<le> (of_int d :: rat)"
    using bd(1) bd1 pow2_int_rat[of "bd - 1"] by (metis of_int_le_iff diff_ge_0_iff_ge)
  have dpos: "(0::rat) < of_int d" using d by simp
  have p1: "(0::rat) < power_int 2 (bd - 1)" by simp
  have "a * of_int d = of_int n" using a dpos by simp
  have up: "a < power_int 2 (bn - bd + 1)"
  proof -
    have "of_int n < power_int 2 (bn - bd + 1) * (power_int 2 (bd - 1) :: rat)"
      using nr by (simp flip: power_int_add)
    also have "\<dots> \<le> power_int 2 (bn - bd + 1) * of_int d"
      using dl by (simp)
    finally show ?thesis using dpos a by (simp add: divide_less_eq)
  qed
  have lo: "power_int 2 (bn - bd - 1) < a"
  proof -
    have "power_int 2 (bn - bd - 1) * (of_int d :: rat) < power_int 2 (bn - bd - 1) * power_int 2 bd"
      using dr by simp
    also have "\<dots> = power_int 2 (bn - 1)" by (simp flip: power_int_add)
    also have "\<dots> \<le> of_int n" using nl .
    finally show ?thesis using dpos a by (simp add: less_divide_eq)
  qed
  show ?thesis
    using up lo by (auto simp: ilog2_def nd Let_def bn_def bd_def not_le)
qed


lemma pow2_less_iff: "(power_int 2 m :: rat) < power_int 2 n \<longleftrightarrow> m < n"
proof
  assume l: "(power_int 2 m :: rat) < power_int 2 n"
  show "m < n"
  proof (rule ccontr)
    assume "\<not> m < n"
    then have "n \<le> m" by simp
    then have "(power_int 2 n :: rat) \<le> power_int 2 m" by (intro power_int_increasing) auto
    with l show False by simp
  qed
next
  assume "m < n"
  then show "(power_int 2 m :: rat) < power_int 2 n" by (intro power_int_strict_increasing) auto
qed

lemma pow2_le_iff: "(power_int 2 m :: rat) \<le> power_int 2 n \<longleftrightarrow> m \<le> n"
  using pow2_less_iff[of n m] by (auto simp: not_less[symmetric])

lemma ilog2_unique:
  assumes "0 < a" "power_int 2 e \<le> a" "a < power_int 2 (e + 1)"
  shows "ilog2 a = e"
proof -
  let ?i = "ilog2 a"
  have b: "power_int 2 ?i \<le> a" "a < power_int 2 (?i + 1)" using ilog2_bounds[OF assms(1)] by auto
  have "(power_int 2 ?i :: rat) < power_int 2 (e + 1)" using b(1) assms(3) by linarith
  then have 1: "?i < e + 1" by (simp add: pow2_less_iff)
  have "(power_int 2 e :: rat) < power_int 2 (?i + 1)" using b(2) assms(2) by linarith
  then have 2: "e < ?i + 1" by (simp add: pow2_less_iff)
  show ?thesis using 1 2 by simp
qed

text \<open>A binary64 value is a fixed point of the rounding.\<close>

lemma rn_exact:
  assumes a: "a = of_int m * power_int 2 k" and m: "0 < m" "m < 2 ^ 53"
    and k: "- 1074 \<le> k" "k \<le> 970"
  shows "rn a = Finite a"
proof -
  have apos: "0 < a" using a m by simp
  define e where "e = max (ilog2 a) (- 1022)"
  define u :: rat where "u = power_int 2 (e - 52)"
  have upos: "0 < u" by (simp add: u_def)
  have b: "power_int 2 (ilog2 a) \<le> a" using ilog2_bounds[OF apos] by auto
  have "(of_int m :: rat) < 2 ^ 53" using m(2) by (metis of_int_less_iff of_int_numeral of_int_power)
  then have "a < 2 ^ 53 * power_int 2 k" using a by simp
  also have "\<dots> = power_int 2 (53 + k)" by (simp add: power_int_add)
  finally have alt: "a < power_int 2 (53 + k)" .
  then have "(power_int 2 (ilog2 a) :: rat) < power_int 2 (53 + k)" using b by linarith
  then have "ilog2 a < 53 + k" by (simp add: pow2_less_iff)
  then have ek: "e - 52 \<le> k" using k by (simp add: e_def)
  have "a / u = of_int m * power_int 2 (k - (e - 52))"
    by (simp add: a u_def power_int_diff)
  also have "\<dots> = of_int (m * 2 ^ nat (k - (e - 52)))"
    using ek by (simp add: power_int_def)
  finally have "round_half_even (a / u) = m * 2 ^ nat (k - (e - 52))"
    by (simp only: rhe_of_int)
  then have "of_int (round_half_even (a / u)) * u = of_int m * power_int 2 (k - (e - 52)) * u"
    using ek by (simp add: power_int_def)
  also have "\<dots> = a" by (simp add: a u_def power_int_diff)
  finally have r: "of_int (round_half_even (a / u)) * u = a" .
  have "(power_int 2 (53 + k) :: rat) \<le> power_int 2 1024"
    by (subst pow2_le_iff) (use k in simp)
  then have "a < power_int 2 1024" using alt by (rule less_le_trans[rotated])
  then have "a < 2 ^ 1024" by (simp add: power_int_def)
  then show ?thesis
    using apos r by (simp add: rn_def Let_def e_def[symmetric] u_def[symmetric])
qed

lemma rn_numeral: "numeral n < (2::int) ^ 53 \<Longrightarrow> rn (numeral n) = Finite (numeral n)"
  using rn_exact[of "numeral n" "numeral n" 0] by simp

text \<open>The rounding of a positive rational, given its binary exponent.\<close>

lemma rn_eval:
  assumes apos: "0 < a" and lo: "power_int 2 e \<le> a" and hi: "a < power_int 2 (e + 1)"
    and e: "- 1022 \<le> e" "e \<le> 1022"
    and m': "of_int m - 1 / 2 < a / power_int 2 (e - 52)"
            "a / power_int 2 (e - 52) < of_int m + 1 / 2"
  shows "rn a = Finite (of_int m * power_int 2 (e - 52))"
proof -
  have m: "round_half_even (a / power_int 2 (e - 52)) = m" using m' by (rule rhe_eval)
  have i: "ilog2 a = e" using ilog2_unique[OF apos lo hi] .
  have mx: "max e (- 1022) = e" using e by simp
  define u :: rat where "u = power_int 2 (e - 52)"
  have upos: "0 < u" by (simp add: u_def)
  have "of_int m \<le> a / u + 1 / 2" using rhe_upper[of "a / u"] m by (simp add: u_def)
  then have "of_int m * u \<le> (a / u + 1 / 2) * u" using upos by (simp only: mult_le_cancel_right_pos)
  also have "\<dots> = a + u / 2" using upos by (simp add: field_simps)
  also have "\<dots> < power_int 2 (e + 1) + u / 2" using hi by simp
  also have "\<dots> \<le> power_int 2 1023 + power_int 2 1023"
  proof -
    have "(power_int 2 (e + 1) :: rat) \<le> power_int 2 1023"
      by (subst pow2_le_iff) (use e in simp)
    moreover have "u \<le> power_int 2 1023"
      unfolding u_def by (subst pow2_le_iff) (use e in simp)
    moreover have "u / 2 \<le> u" using upos by simp
    ultimately show ?thesis by linarith
  qed
  also have "\<dots> = 2 ^ 1024" by (simp add: power_int_def)
  finally have "\<not> 2 ^ 1024 \<le> of_int m * u" by simp
  then show ?thesis
    using apos m by (simp add: rn_def Let_def i mx u_def[symmetric])
qed

text \<open>From \<open>2 ^ 1024\<close> on, the rounding overflows.\<close>

lemma rn_overflow:
  assumes "2 ^ 1024 \<le> a"
  shows "rn a = PInf"
proof -
  have apos: "0 < a" using assms by (smt (verit) zero_less_power zero_less_numeral less_le_trans)
  define e where "e = ilog2 a"
  have b: "power_int 2 e \<le> a" "a < power_int 2 (e + 1)" using ilog2_bounds[OF apos] by (auto simp: e_def)
  have p: "(2::rat) ^ 1024 = power_int 2 1024" by (simp add: power_int_def)
  have "(power_int 2 1024 :: rat) < power_int 2 (e + 1)" using assms b(2) unfolding p by (rule le_less_trans)
  then have "1024 < e + 1" by (subst (asm) pow2_less_iff)
  then have e: "1024 \<le> e" by simp
  then have mx: "max e (- 1022) = e" by simp
  define u :: rat where "u = power_int 2 (e - 52)"
  have upos: "0 < u" by (simp add: u_def)
  have "of_int (2 ^ 52) * u = power_int 2 e" by (simp add: u_def power_int_diff)
  then have "of_int (2 ^ 52) \<le> a / u" using b(1) upos by (simp add: le_divide_eq)
  then have "2 ^ 52 \<le> round_half_even (a / u)" by (rule rhe_ge_int)
  then have "(of_int (2 ^ 52) :: rat) \<le> of_int (round_half_even (a / u))" by (simp only: of_int_le_iff)
  then have "of_int (2 ^ 52) * u \<le> of_int (round_half_even (a / u)) * u"
    using upos by (simp only: mult_le_cancel_right_pos)
  moreover have "(2::rat) ^ 1024 \<le> power_int 2 e"
    unfolding p by (subst pow2_le_iff) (rule e)
  ultimately have "2 ^ 1024 \<le> of_int (round_half_even (a / u)) * u"
    using \<open>of_int (2 ^ 52) * u = power_int 2 e\<close> by linarith
  then show ?thesis
    using apos by (simp add: rn_def Let_def e_def[symmetric] mx u_def[symmetric])
qed

text \<open>The rounding keeps the sign.\<close>

lemma rn_nonneg:
  assumes "0 \<le> q"
  shows "rn q = PInf \<or> (\<exists>r. rn q = Finite r \<and> 0 \<le> r)"
proof (cases "q = 0")
  case True
  then show ?thesis by (simp add: rn_def)
next
  case False
  then have "0 < q" using assms by simp
  then have "0 \<le> round_half_even (\<bar>q\<bar> / power_int 2 (max (ilog2 \<bar>q\<bar>) (- 1022) - 52))"
    by (intro rhe_nonneg) simp
  then show ?thesis using \<open>0 < q\<close> by (simp add: rn_def Let_def)
qed

section \<open>The line normaliser: proofs\<close>


subsection \<open>The second loop\<close>

lemma merge_loop_append:
  "merge_loop acc (xs @ ys) =
     (case merge_loop acc xs of Inl e \<Rightarrow> Inl e | Inr m \<Rightarrow> merge_loop m ys)"
  by (induction xs arbitrary: acc) (auto split: sum.splits)

lemma merge_loop_snoc:
  "merge_loop acc xs = Inr m \<Longrightarrow> merge_loop acc (xs @ [x]) = merge_step m x"
  by (simp add: merge_loop_append split: sum.splits)

lemma merge_step_length:
  "merge_step merged item = Inr out \<Longrightarrow> length merged \<le> length out"
  by (auto simp: merge_step_def split: if_splits sum.splits)

lemma merge_loop_length:
  "merge_loop acc xs = Inr out \<Longrightarrow> length acc \<le> length out"
proof (induction xs arbitrary: acc)
  case Nil
  then show ?case by simp
next
  case (Cons x xs)
  then obtain m where m: "merge_step acc x = Inr m" "merge_loop m xs = Inr out"
    by (auto split: sum.splits)
  then show ?case using merge_step_length[OF m(1)] Cons.IH[OF m(2)] by simp
qed

lemma fold_discount_applies:
  assumes "py_float (remove_char CHR ''-'' cp) = Some D" "price prev = Some P_str"
    "py_float P_str = Some P"
  shows "fold_discount prev cp =
           Inr (if flt D P
                then prev\<lparr>original_price := Some P_str, price := Some (fmt2f (fsub P D)),
                          tpd := Some True\<rparr>
                else prev)"
  using assms by (simp add: fold_discount_def)

lemma not_flt_if_fge: "fge x y \<Longrightarrow> \<not> flt x y"
  by (cases x; cases y; auto simp: fge_def fgt_def feq_def)

text \<open>Claim C1 (fold correctness). Let the fold pass have produced the non-empty list
  \<open>merged\<close> from the lines \<open>xs\<close>, and let the next line be a discount line (a TPD
  marker in its name, or a cleaned price ending in a minus sign) whose magnitude
  parses to \<open>D\<close>, while the price string \<open>P_str\<close> of the last merged item parses to
  \<open>P\<close> with \<open>D < P\<close>. Then the fold rewrites that last item: its price becomes
  \<open>round(P - D, 2)\<close> written with two decimals, its \<open>original_price\<close> the old price
  string and its \<open>tpd\<close> flag true; every other item is untouched and the discount
  line adds no item of its own.\<close>

theorem fold_correct:
  assumes "merge_loop [] xs = Inr merged" and "merged \<noteq> []"
    and "is_discount_line item"
    and "py_float (remove_char CHR ''-'' (clean_price_of item)) = Some D"
    and "price (last merged) = Some P_str" and "py_float P_str = Some P"
    and "flt D P"
  shows "merge_loop [] (xs @ [item]) =
           Inr (butlast merged @
                [(last merged)\<lparr>original_price := Some P_str,
                                price := Some (fmt2f (fsub P D)),
                                tpd := Some True\<rparr>])"
  using assms
  by (simp add: merge_loop_snoc merge_step_def fold_discount_applies)

text \<open>Claim C7 (fold skip). In the same situation, when the magnitude \<open>D\<close> of the
  discount line is greater than or equal to the price \<open>P\<close> of the last merged item,
  the merged list is returned as it was: the preceding item keeps all its fields,
  and the discount line yields neither an item nor an adjustment.\<close>

theorem fold_skip:
  assumes "merge_loop [] xs = Inr merged" and "merged \<noteq> []"
    and "is_discount_line item"
    and "py_float (remove_char CHR ''-'' (clean_price_of item)) = Some D"
    and "price (last merged) = Some P_str" and "py_float P_str = Some P"
    and "fge D P"
  shows "merge_loop [] (xs @ [item]) = Inr merged"
  using assms not_flt_if_fge[OF assms(7)]
  by (simp add: merge_loop_snoc merge_step_def fold_discount_applies)

subsection \<open>Finalisation\<close>

lemma check_qty_cases:
  assumes "check_qty item = Inr it"
  shows "it = item \<or> it = item\<lparr>qty := Some ''1''\<rparr>"
  using assms by (auto simp: check_qty_def split: option.splits if_splits)

lemma recover_keeps:
  "price (recover_item_number item) = price item"
  "tpd (recover_item_number item) = tpd item"
  "original_price (recover_item_number item) = original_price item"
  "qty (recover_item_number item) = qty item"
  by (auto simp: recover_item_number_def strip_number_prefix_def clear_long_number_def
        recover_from_name_def split: option.splits)

lemma finalize_Inr:
  assumes "finalize item = Inr it"
  shows "\<exists>item'. check_qty (set_defaults (clean_price_of item) item) = Inr item' \<and>
           it = recover_item_number item' \<and> name item' = name item \<and>
           item_number item' = item_number item \<and>
           price item' = Some (remove_char CHR ''-'' (clean_price_of item)) \<and>
           tpd item' = Some (get (tpd item) False) \<and>
           original_price item' = Some (get (original_price item) '''')"
proof -
  obtain item' where c: "check_qty (set_defaults (clean_price_of item) item) = Inr item'"
    and it: "it = recover_item_number item'"
    using assms by (auto simp: finalize_def split: sum.splits)
  from check_qty_cases[OF c] show ?thesis
    using c it by (auto simp: set_defaults_def)
qed

lemma fold_discount_fields:
  assumes "fold_discount prev cp = Inr prev'"
  shows "prev' = prev\<lparr>price := price prev', original_price := original_price prev',
                        tpd := tpd prev'\<rparr>"
  using assms by (auto simp: fold_discount_def split: option.splits if_splits)

lemma merge_step_hd:
  assumes "merge_step acc x = Inr acc'" "acc \<noteq> []"
  shows "acc' \<noteq> [] \<and>
         hd acc' = (hd acc)\<lparr>price := price (hd acc'), original_price := original_price (hd acc'),
                             tpd := tpd (hd acc')\<rparr>"
proof (cases "is_discount_line x")
  case True
  then obtain prev' where p: "fold_discount (last acc) (clean_price_of x) = Inr prev'"
    "acc' = butlast acc @ [prev']"
    using assms by (auto simp: merge_step_def split: sum.splits)
  show ?thesis
  proof (cases "butlast acc")
    case Nil
    then have "last acc = hd acc" using assms(2) by (cases acc) (auto split: if_splits)
    then show ?thesis using p Nil fold_discount_fields[OF p(1)] by simp
  next
    case (Cons a as)
    then have "hd acc = a" using assms(2) by (cases acc) (auto split: if_splits)
    then show ?thesis using p Cons by simp
  qed
next
  case False
  then obtain item' where "acc' = acc @ [item']"
    using assms by (auto simp: merge_step_def split: sum.splits)
  then show ?thesis using assms(2) by simp
qed

lemma merge_loop_hd:
  assumes "merge_loop acc xs = Inr out" "acc \<noteq> []"
  shows "out \<noteq> [] \<and>
         hd out = (hd acc)\<lparr>price := price (hd out), original_price := original_price (hd out),
                            tpd := tpd (hd out)\<rparr>"
  using assms
proof (induction xs arbitrary: acc)
  case Nil
  then show ?case by simp
next
  case (Cons x xs)
  then obtain m where m: "merge_step acc x = Inr m" "merge_loop m xs = Inr out"
    by (auto split: sum.splits)
  have s: "m \<noteq> []"
    "hd m = (hd acc)\<lparr>price := price (hd m), original_price := original_price (hd m),
                      tpd := tpd (hd m)\<rparr>"
    using merge_step_hd[OF m(1) Cons.prems(2)] by auto
  have l: "out \<noteq> []"
    "hd out = (hd m)\<lparr>price := price (hd out), original_price := original_price (hd out),
                     tpd := tpd (hd out)\<rparr>"
    using Cons.IH[OF m(2) s(1)] by auto
  have "hd out = (hd acc)\<lparr>price := price (hd out), original_price := original_price (hd out),
                           tpd := tpd (hd out)\<rparr>"
    by (subst l(2), subst s(2)) simp
  with l(1) show ?case by simp
qed

lemma merge_step_keeps_hd:
  assumes "merge_step acc x = Inr acc'" "2 \<le> length acc"
  shows "2 \<le> length acc' \<and> hd acc' = hd acc"
proof -
  obtain a b bs where acc: "acc = a # b # bs"
    using assms(2) by (cases acc; cases "tl acc") auto
  show ?thesis
    using assms(1) unfolding acc
    by (auto simp: merge_step_def split: if_splits sum.splits)
qed

lemma merge_loop_keeps_hd:
  assumes "merge_loop acc xs = Inr out" "2 \<le> length acc"
  shows "hd out = hd acc"
  using assms
proof (induction xs arbitrary: acc)
  case Nil
  then show ?case by simp
next
  case (Cons x xs)
  then obtain m where m: "merge_step acc x = Inr m" "merge_loop m xs = Inr out"
    by (auto split: sum.splits)
  have "2 \<le> length m" "hd m = hd acc"
    using merge_step_keeps_hd[OF m(1) Cons.prems(2)] by auto
  then show ?case using Cons.IH[OF m(2)] by simp
qed

lemma merge_loop_after_plain:
  assumes "merge_loop [it] rest = Inr out" "rest = [] \<or> \<not> is_discount_line (hd rest)"
  shows "hd out = it"
proof (cases rest)
  case Nil
  then show ?thesis using assms(1) by auto
next
  case (Cons r rs)
  then have nd: "\<not> is_discount_line r" using assms(2) by simp
  obtain m where m: "merge_step [it] r = Inr m" "merge_loop m rs = Inr out"
    using assms(1) Cons by (auto split: sum.splits)
  obtain r' where "m = [it, r']"
    using m(1) nd by (auto simp: merge_step_def split: sum.splits)
  then show ?thesis using merge_loop_keeps_hd[OF m(2)] by simp
qed

text \<open>Claim C10 (a leading discount line), as the code has it. When the first
  line that survives the noise and zero-price filter is a discount line, there
  is no item to fold it into, and the line is not dropped. Its finalisation \<open>it\<close>
  is a regular item: \<open>tpd\<close> is false and \<open>original_price\<close> empty unless the raw line
  carried these keys, and the price is the cleaned price without its minus sign.
  It opens the merged list, and whenever normalization returns, the first item
  of the output is \<open>it\<close> up to its \<open>price\<close>, \<open>original_price\<close> and \<open>tpd\<close>: these three
  are rewritten when discount lines that follow it directly are folded into it.
  When it is the only line, or the line after it is not a discount line, the
  first item of the output is \<open>it\<close> itself.\<close>

theorem leading_discount_line_emitted:
  assumes "noise_loop items = item # rest" and "is_discount_line item"
    and "finalize item = Inr it"
  shows "post_process items = merge_loop [it] rest \<and>
         tpd it = Some (get (tpd item) False) \<and>
         original_price it = Some (get (original_price item) '''') \<and>
         price it = Some (remove_char CHR ''-'' (clean_price_of item)) \<and>
         (\<forall>out. post_process items = Inr out \<longrightarrow>
            out \<noteq> [] \<and>
            hd out = it\<lparr>price := price (hd out), original_price := original_price (hd out),
                        tpd := tpd (hd out)\<rparr> \<and>
            (rest = [] \<or> \<not> is_discount_line (hd rest) \<longrightarrow> hd out = it))"
proof -
  have pp: "post_process items = merge_loop [it] rest"
    using assms(1,3) by (simp add: post_process_def merge_step_def)
  have f: "tpd it = Some (get (tpd item) False)"
    "original_price it = Some (get (original_price item) '''')"
    "price it = Some (remove_char CHR ''-'' (clean_price_of item))"
    using finalize_Inr[OF assms(3)] by (auto simp: recover_keeps)
  have o: "out \<noteq> [] \<and>
           hd out = it\<lparr>price := price (hd out), original_price := original_price (hd out),
                       tpd := tpd (hd out)\<rparr> \<and>
           (rest = [] \<or> \<not> is_discount_line (hd rest) \<longrightarrow> hd out = it)"
    if "post_process items = Inr out" for out
  proof -
    have ml: "merge_loop [it] rest = Inr out" using that pp by simp
    have "out \<noteq> []"
      "hd out = it\<lparr>price := price (hd out), original_price := original_price (hd out),
                  tpd := tpd (hd out)\<rparr>"
      using merge_loop_hd[OF ml] by auto
    moreover have "hd out = it" if "rest = [] \<or> \<not> is_discount_line (hd rest)"
      using ml that by (rule merge_loop_after_plain)
    ultimately show ?thesis by blast
  qed
  show ?thesis using pp f o by blast
qed

subsection \<open>The quantity check\<close>

lemma rn_pos:
  assumes "1 \<le> a" "rn a = Finite r"
  shows "0 < r"
proof -
  have apos: "0 < a" using assms(1) by simp
  define e where "e = ilog2 a"
  have b: "power_int 2 e \<le> a" "a < power_int 2 (e + 1)"
    using ilog2_bounds[OF apos] by (auto simp: e_def)
  have "(power_int 2 0 :: rat) < power_int 2 (e + 1)" using assms(1) b(2) by simp
  then have "0 < e + 1" by (subst (asm) pow2_less_iff)
  then have mx: "max e (- 1022) = e" by simp
  define u :: rat where "u = power_int 2 (e - 52)"
  have upos: "0 < u" by (simp add: u_def)
  have "of_int (2 ^ 52) * u = power_int 2 e" by (simp add: u_def power_int_diff)
  then have "of_int (2 ^ 52) \<le> a / u" using b(1) upos by (simp add: le_divide_eq)
  then have "2 ^ 52 \<le> round_half_even (a / u)" by (rule rhe_ge_int)
  then have "0 < round_half_even (a / u)" by simp
  then have "0 < of_int (round_half_even (a / u)) * u" using upos by simp
  then show ?thesis
    using assms(2) apos
    by (simp add: rn_def Let_def e_def[symmetric] mx u_def[symmetric] split: if_splits)
qed

lemma int_to_float_pos:
  assumes "1 \<le> q" "int_to_float q = Some qf"
  shows "\<exists>r. qf = Finite r \<and> 0 < r"
proof -
  obtain r where r: "rn (of_int q) = Finite r" "qf = Finite r"
    using assms(2) by (auto simp: int_to_float_def split: pyfloat.splits)
  have "(1::rat) \<le> of_int q" using assms(1) by simp
  then have "0 < r" using r(1) by (rule rn_pos)
  with r(2) show ?thesis by simp
qed

lemma check_qty_result:
  assumes "py_int (get (qty item) ''1'') = Some q" "1 < q"
    "price item = Some ps" "py_float ps = Some p" "check_qty item = Inr it"
  shows "\<exists>qf x. int_to_float q = Some qf \<and> fdiv p qf = Some x \<and>
           it = (if fgt (fabs (fsub x (round2 x))) tolerance then item\<lparr>qty := Some ''1''\<rparr>
                 else item)"
proof -
  obtain qf where qf: "int_to_float q = Some qf"
    using assms by (auto simp: check_qty_def split: option.splits)
  obtain r where r: "qf = Finite r" "0 < r"
    using int_to_float_pos[OF _ qf] assms(2) by auto
  then obtain x where x: "fdiv p qf = Some x" by simp
  show ?thesis using assms qf x by (auto simp: check_qty_def)
qed

lemma tolerance_spec: "tolerance = Finite spec_tolerance"
  unfolding tolerance_def spec_tolerance_def
  using rn_eval[of "1 / 1000" "- 10" 4611686018427388] by simp

lemma exceeds_outside: "fgt (fabs d) tolerance \<longleftrightarrow> outside_tolerance d"
proof (cases d)
  case (Finite c)
  have "spec_tolerance < \<bar>c\<bar> \<longleftrightarrow> spec_tolerance < c \<or> c < - spec_tolerance" by linarith
  then show ?thesis
    unfolding tolerance_spec outside_tolerance_def Finite by (simp add: fgt_def)
qed (simp_all add: tolerance_spec outside_tolerance_def fgt_def)

text \<open>Claim C8 (quantity check). For a line whose \<open>qty\<close> parses to an integer \<open>q > 1\<close>
  and whose cleaned price parses to \<open>p\<close>, and whose finalisation returns \<open>it\<close>:
  the quotient \<open>x = p / q\<close> exists, and \<open>qty\<close> is reset to \<open>1\<close> exactly when \<open>x\<close> is
  not evenly divisible to two decimals within the tolerance, that is when the
  difference between \<open>x\<close> and \<open>x\<close> rounded to two decimals lies above \<open>0.001\<close> or below
  \<open>-0.001\<close>; otherwise \<open>qty\<close> is kept.\<close>

theorem qty_divisibility_check:
  assumes "py_int (get (qty item) ''1'') = Some q" and "1 < q"
    and "py_float (remove_char CHR ''-'' (clean_price_of item)) = Some p"
    and "finalize item = Inr it"
  shows "\<exists>qf x. int_to_float q = Some qf \<and> fdiv p qf = Some x \<and>
           qty it = (if outside_tolerance (fsub x (round2 x)) then Some ''1''
                     else qty item)"
proof -
  let ?item1 = "set_defaults (clean_price_of item) item"
  obtain item' where c: "check_qty ?item1 = Inr item'" and it: "it = recover_item_number item'"
    using finalize_Inr[OF assms(4)] by blast
  have q1: "py_int (get (qty ?item1) ''1'') = Some q" using assms(1) by (simp add: set_defaults_def)
  have p1: "price ?item1 = Some (remove_char CHR ''-'' (clean_price_of item))"
    by (simp add: set_defaults_def)
  obtain qf x where qx: "int_to_float q = Some qf" "fdiv p qf = Some x"
    "item' = (if fgt (fabs (fsub x (round2 x))) tolerance then ?item1\<lparr>qty := Some ''1''\<rparr>
              else ?item1)"
    using check_qty_result[OF q1 assms(2) p1 assms(3) c] by blast
  have "qty it = (if outside_tolerance (fsub x (round2 x)) then Some ''1'' else qty item)"
    using qx(3) it unfolding exceeds_outside by (simp add: recover_keeps set_defaults_def)
  with qx show ?thesis by blast
qed

subsection \<open>Item-number recovery\<close>

lemma translate_char_spec: "translate_char ''OoBbIlSsGg'' ''0088115599'' c = spec_digit_of c"
  by (simp add: translate_char_def)

lemma ocr_fix_spec: "ocr_fix tok = map spec_digit_of tok"
  by (simp add: ocr_fix_def translate_def translate_char_spec)

lemma ocr_class_spec: "ocr_class c \<longleftrightarrow> c \<in> set ''0123456789OoBbIlSsGg''"
  by (auto simp: ocr_class_def is_digit_def)

lemma spec_digit_is_digit: "ocr_class c \<Longrightarrow> is_digit (spec_digit_of c)"
  by (auto simp: ocr_class_def is_digit_def)

lemma space_not_class: "is_space c \<Longrightarrow> \<not> ocr_class c"
  by (auto simp: ocr_class_def is_digit_def is_space_def)

lemma item_number_match_token:
  assumes "begins_with_token n tok rest"
  shows "item_number_match n = Some tok"
proof -
  have tok: "\<forall>c \<in> set tok. ocr_class c" using assms
    by (simp add: begins_with_token_def ocr_class_spec)
  obtain c rest' where rest: "rest = c # rest'" "is_space c"
    using assms by (cases rest) (auto simp: begins_with_token_def)
  have n: "n = tok @ c # rest'" using assms rest by (simp add: begins_with_token_def)
  have "takeWhile ocr_class n = tok" "dropWhile ocr_class n = c # rest'"
    using tok rest(2) space_not_class unfolding n
    by (simp_all add: takeWhile_append2 dropWhile_append2)
  then show ?thesis
    using assms rest by (simp add: item_number_match_def begins_with_token_def)
qed

lemma token_in_class:
  assumes "begins_with_token n tok rest"
  shows "\<forall>c \<in> set tok. ocr_class c"
  using assms unfolding begins_with_token_def ocr_class_spec by blast

lemma fixed_digits:
  assumes "\<forall>c \<in> set tok. ocr_class c"
  shows "\<forall>c \<in> set (map spec_digit_of tok). is_digit c"
proof
  fix c assume "c \<in> set (map spec_digit_of tok)"
  then obtain d where "d \<in> set tok" "c = spec_digit_of d" by (auto simp del: spec_digit_of.simps)
  then show "is_digit c" using assms spec_digit_is_digit by blast
qed

lemma token_nonempty:
  assumes "begins_with_token n tok rest"
  shows "tok \<noteq> []"
proof -
  have "4 \<le> length tok" using assms unfolding begins_with_token_def by blast
  then show ?thesis by auto
qed

lemma isdigit_ocr_fix:
  assumes "begins_with_token n tok rest"
  shows "isdigit (ocr_fix tok)"
  unfolding isdigit_def ocr_fix_spec
  using fixed_digits[OF token_in_class[OF assms]] token_nonempty[OF assms] by blast

lemma recover_from_name_match:
  assumes "item_number_match n = Some tok" "isdigit (ocr_fix tok)"
  shows "recover_from_name (item, n, '''') =
           (item\<lparr>item_number := Some (ocr_fix tok),
                  name := Some (strip (drop (length tok) n))\<rparr>,
            strip (drop (length tok) n), ocr_fix tok)"
  using assms by (simp add: recover_from_name_def truthy_def)

lemma recover_from_name_given:
  "num \<noteq> [] \<Longrightarrow> recover_from_name (item, n, num) = (item, n, num)"
  by (simp add: recover_from_name_def truthy_def)

lemma clear_long_number_eq:
  "clear_long_number (item, n, num) =
     (if 8 < length num then (item\<lparr>item_number := Some ''''\<rparr>, n, '''') else (item, n, num))"
  by (auto simp: clear_long_number_def truthy_def)

lemma strip_number_prefix_eq:
  "strip_number_prefix (item, n, num) =
     (if num \<noteq> [] \<and> startswith n num then item\<lparr>name := Some (strip (drop (length num) n))\<rparr>
      else item)"
  by (simp add: strip_number_prefix_def truthy_def)

lemma recover_unfold:
  "recover_item_number item =
     strip_number_prefix (clear_long_number (recover_from_name
       (item, get (name item) '''', get (item_number item) '''')))"
  by (simp add: recover_item_number_def)

lemma recover_token:
  assumes e: "get (item_number item) '''' = ''''"
    and t: "begins_with_token (get (name item) '''') tok rest"
  shows "recover_item_number item =
           item\<lparr>item_number := Some (map spec_digit_of tok),
                 name := Some (if startswith (strip rest) (map spec_digit_of tok)
                               then strip (drop (length tok) (strip rest))
                               else strip rest)\<rparr>"
proof -
  have m: "item_number_match (get (name item) '''') = Some tok"
    using t by (rule item_number_match_token)
  have d: "isdigit (ocr_fix tok)" using t by (rule isdigit_ocr_fix)
  have l: "length tok \<le> 8" "tok \<noteq> []" "drop (length tok) (get (name item) '''') = rest"
    using t by (simp_all add: begins_with_token_def token_nonempty[OF t])
  have f: "ocr_fix tok \<noteq> []" "length (ocr_fix tok) = length tok"
    using l(2) unfolding ocr_fix_spec by simp_all
  have 1: "recover_from_name (item, get (name item) '''', get (item_number item) '''') =
        (item\<lparr>item_number := Some (ocr_fix tok), name := Some (strip rest)\<rparr>,
         strip rest, ocr_fix tok)"
    unfolding e recover_from_name_match[OF m d] l(3) ..
  have 2: "clear_long_number
             (item\<lparr>item_number := Some (ocr_fix tok), name := Some (strip rest)\<rparr>,
              strip rest, ocr_fix tok) =
           (item\<lparr>item_number := Some (ocr_fix tok), name := Some (strip rest)\<rparr>,
            strip rest, ocr_fix tok)"
    unfolding clear_long_number_eq f(2) using l(1) by simp
  have 3: "strip_number_prefix
             (item\<lparr>item_number := Some (ocr_fix tok), name := Some (strip rest)\<rparr>,
              strip rest, ocr_fix tok) =
           item\<lparr>item_number := Some (ocr_fix tok),
                 name := Some (if startswith (strip rest) (ocr_fix tok)
                               then strip (drop (length tok) (strip rest))
                               else strip rest)\<rparr>"
    unfolding strip_number_prefix_eq f(2) using f(1) by simp
  show ?thesis
    unfolding recover_unfold 1 2 3 by (simp only: ocr_fix_spec)
qed

lemma recover_long:
  assumes "8 < length (get (item_number item) '''')"
  shows "recover_item_number item = item\<lparr>item_number := Some ''''\<rparr>"
proof -
  have ne: "get (item_number item) '''' \<noteq> []" using assms by auto
  show ?thesis
    using assms
    by (simp add: recover_unfold recover_from_name_given[OF ne] clear_long_number_eq
          strip_number_prefix_eq)
qed

lemma recover_given:
  assumes "get (item_number item) '''' \<noteq> ''''" "length (get (item_number item) '''') \<le> 8"
  shows "recover_item_number item =
           (if startswith (get (name item) '''') (get (item_number item) '''')
            then item\<lparr>name := Some (strip (drop (length (get (item_number item) ''''))
                                                  (get (name item) '''')))\<rparr>
            else item)"
  using assms
  by (simp add: recover_unfold recover_from_name_given[OF assms(1)] clear_long_number_eq
        strip_number_prefix_eq)

text \<open>Claim C6 (item-number recovery). For a line whose finalisation returns \<open>it\<close>:
  if its \<open>item_number\<close> is empty and its name begins with a token of four to eight
  characters drawn from the digits and \<open>O o B b I l S s G g\<close>, followed by white
  space, then the token translated by the fixed mapping consists of digits only
  and becomes the \<open>item_number\<close>, and the token with the white space after it is
  stripped from the name (as is a further occurrence of the number at the front
  of what remains); an \<open>item_number\<close> of more than eight characters is cleared;
  and a shorter one that the name begins with is stripped from the name.\<close>

theorem item_number_recovery:
  assumes "finalize item = Inr it"
  shows "(get (item_number item) '''' = '''' \<and> begins_with_token (get (name item) '''') tok rest
          \<longrightarrow> item_number it = Some (map spec_digit_of tok) \<and>
              isdigit (map spec_digit_of tok) \<and>
              name it = Some (if startswith (strip rest) (map spec_digit_of tok)
                              then strip (drop (length tok) (strip rest))
                              else strip rest)) \<and>
         (8 < length (get (item_number item) '''')
          \<longrightarrow> item_number it = Some '''' \<and> name it = name item) \<and>
         (get (item_number item) '''' \<noteq> '''' \<and> length (get (item_number item) '''') \<le> 8
          \<longrightarrow> item_number it = item_number item \<and>
              name it = (if startswith (get (name item) '''') (get (item_number item) '''')
                         then Some (strip (drop (length (get (item_number item) ''''))
                                                (get (name item) '''')))
                         else name item))"
proof -
  obtain item' where it: "it = recover_item_number item'" and nm: "name item' = name item"
    and num: "item_number item' = item_number item"
    using finalize_Inr[OF assms] by blast
  show ?thesis
  proof (intro conjI impI)
    assume a: "get (item_number item) '''' = '''' \<and>
               begins_with_token (get (name item) '''') tok rest"
    then have t: "begins_with_token (get (name item') '''') tok rest"
      and e: "get (item_number item') '''' = ''''"
      unfolding nm num by simp_all
    have r: "it = item'\<lparr>item_number := Some (map spec_digit_of tok),
                 name := Some (if startswith (strip rest) (map spec_digit_of tok)
                               then strip (drop (length tok) (strip rest))
                               else strip rest)\<rparr>"
      unfolding it by (rule recover_token[OF e t])
    show "item_number it = Some (map spec_digit_of tok)" unfolding r by simp
    show "name it = Some (if startswith (strip rest) (map spec_digit_of tok)
                          then strip (drop (length tok) (strip rest))
                          else strip rest)"
      unfolding r by simp
    show "isdigit (map spec_digit_of tok)"
      using isdigit_ocr_fix[OF t] unfolding ocr_fix_spec .
  next
    assume "8 < length (get (item_number item) '''')"
    then have "8 < length (get (item_number item') '''')" unfolding num .
    then have r: "it = item'\<lparr>item_number := Some ''''\<rparr>" unfolding it by (rule recover_long)
    show "item_number it = Some ''''" unfolding r by simp
    show "name it = name item" unfolding r using nm by simp
  next
    assume "get (item_number item) '''' \<noteq> '''' \<and> length (get (item_number item) '''') \<le> 8"
    then have "get (item_number item') '''' \<noteq> ''''" "length (get (item_number item') '''') \<le> 8"
      unfolding num by simp_all
    then have r: "it = (if startswith (get (name item') '''') (get (item_number item') '''')
            then item'\<lparr>name := Some (strip (drop (length (get (item_number item') ''''))
                                                  (get (name item') '''')))\<rparr>
            else item')"
      unfolding it by (rule recover_given)
    show "item_number it = item_number item" unfolding r using num by simp
    show "name it = (if startswith (get (name item) '''') (get (item_number item) '''')
                         then Some (strip (drop (length (get (item_number item) ''''))
                                                (get (name item) '''')))
                         else name item)"
      unfolding r using nm num by simp
  qed
qed

subsection \<open>Exceptions\<close>

lemma check_qty_error:
  assumes "check_qty item = Inl e" "price item \<noteq> None"
  shows "e = OverflowError \<and>
         (\<exists>q. py_int (get (qty item) ''1'') = Some q \<and> 1 < q \<and> int_to_float q = None)"
  using assms by (auto simp: check_qty_def split: option.splits if_splits)

lemma finalize_error:
  assumes "finalize item = Inl e"
  shows "e = OverflowError \<and>
         (\<exists>q. py_int (get (qty item) ''1'') = Some q \<and> 1 < q \<and> int_to_float q = None)"
proof -
  have "check_qty (set_defaults (clean_price_of item) item) = Inl e"
    using assms by (auto simp: finalize_def split: sum.splits)
  from check_qty_error[OF this] show ?thesis by (simp add: set_defaults_def)
qed

lemma finalize_price: "finalize item = Inr it \<Longrightarrow> price it \<noteq> None"
  using finalize_Inr[of item it] by (auto simp: recover_keeps)

lemma fold_discount_price:
  "fold_discount prev cp = Inr prev' \<Longrightarrow> price prev \<noteq> None \<Longrightarrow> price prev' \<noteq> None"
  by (auto simp: fold_discount_def split: option.splits if_splits)

lemma fold_discount_error: "fold_discount prev cp = Inl e \<Longrightarrow> price prev = None"
  by (auto simp: fold_discount_def split: option.splits if_splits)

lemma merge_step_prices:
  assumes "\<forall>x \<in> set merged. price x \<noteq> None"
  shows "(merge_step merged item = Inr out \<longrightarrow> (\<forall>x \<in> set out. price x \<noteq> None)) \<and>
         (merge_step merged item = Inl e \<longrightarrow>
            e = OverflowError \<and>
            (\<exists>q. py_int (get (qty item) ''1'') = Some q \<and> 1 < q \<and> int_to_float q = None))"
proof (cases "is_discount_line item \<and> merged \<noteq> []")
  case True
  then have l: "price (last merged) \<noteq> None" using assms by simp
  have b: "\<forall>x \<in> set (butlast merged). price x \<noteq> None"
    using assms by (meson in_set_butlastD)
  show ?thesis
    using True l b fold_discount_price fold_discount_error
    by (auto simp: merge_step_def split: sum.splits)
next
  case False
  then show ?thesis
    using assms finalize_price finalize_error
    by (auto simp: merge_step_def split: sum.splits)
qed

lemma merge_loop_errors:
  assumes "\<forall>x \<in> set acc. price x \<noteq> None" "merge_loop acc xs = Inl e"
  shows "e = OverflowError \<and>
         (\<exists>item \<in> set xs. \<exists>q. py_int (get (qty item) ''1'') = Some q \<and> 1 < q \<and>
                                int_to_float q = None)"
  using assms
proof (induction xs arbitrary: acc)
  case Nil
  then show ?case by simp
next
  case (Cons x xs)
  show ?case
  proof (cases "merge_step acc x")
    case (Inl e')
    then show ?thesis using merge_step_prices[OF Cons.prems(1), of x _ e'] Cons.prems(2) by auto
  next
    case (Inr m)
    then have "\<forall>y \<in> set m. price y \<noteq> None"
      using merge_step_prices[OF Cons.prems(1), of x m] by blast
    moreover have "merge_loop m xs = Inl e" using Cons.prems(2) Inr by simp
    ultimately show ?thesis using Cons.IH by auto
  qed
qed

text \<open>The only exception of the normaliser.\<close>

lemma post_process_errors:
  assumes "post_process items = Inl e"
  shows "e = OverflowError \<and>
         (\<exists>item \<in> set (noise_loop items). \<exists>q.
            py_int (get (qty item) ''1'') = Some q \<and> 1 < q \<and> int_to_float q = None)"
  using merge_loop_errors[of "[]" "noise_loop items" e] assms by (simp add: post_process_def)

section \<open>The deal matcher: proofs\<close>


subsection \<open>Comparisons\<close>

lemma flt_irrefl: "\<not> flt x x"
  by (cases x) auto

lemma flt_trans: "flt x y \<Longrightarrow> flt y z \<Longrightarrow> flt x z"
  by (cases x; cases y; cases z) auto

lemma flt_not_feq: "flt x y \<Longrightarrow> \<not> feq x y" "flt x y \<Longrightarrow> \<not> feq y x"
  by (cases x; cases y; auto simp: feq_def)+

lemma key_gt_irrefl: "\<not> key_gt k k"
  by (simp add: key_gt_def fgt_def flt_irrefl)

lemma key_gt_trans:
  assumes "key_gt a b" "key_gt b c"
  shows "key_gt a c"
proof (cases "feq (fst a) (fst b)")
  case ab: True
  show ?thesis
  proof (cases "feq (fst b) (fst c)")
    case True
    with ab assms show ?thesis by (auto simp: key_gt_def feq_def)
  next
    case False
    with ab assms show ?thesis by (auto simp: key_gt_def feq_def split: if_splits)
  qed
next
  case ab: False
  then have 1: "flt (fst b) (fst a)" using assms(1) by (simp add: key_gt_def fgt_def)
  show ?thesis
  proof (cases "feq (fst b) (fst c)")
    case True
    then have "fst b = fst c" by (simp add: feq_def)
    with 1 ab show ?thesis using flt_not_feq(2)[OF 1] by (simp add: key_gt_def fgt_def)
  next
    case False
    then have "flt (fst c) (fst b)" using assms(2) by (simp add: key_gt_def fgt_def)
    then have "flt (fst c) (fst a)" using 1 by (rule flt_trans)
    then show ?thesis using flt_not_feq(2) by (simp add: key_gt_def fgt_def)
  qed
qed

lemma max_from_invariant:
  assumes "best \<in> seen" "\<forall>x \<in> seen. \<not> key_gt (sort_key_of x) (sort_key_of best)"
  shows "max_from best ms \<in> seen \<union> set ms \<and>
         (\<forall>x \<in> seen \<union> set ms. \<not> key_gt (sort_key_of x) (sort_key_of (max_from best ms)))"
  using assms
proof (induction ms arbitrary: best seen)
  case Nil
  then show ?case by simp
next
  case (Cons m ms)
  let ?b = "if key_gt (sort_key_of m) (sort_key_of best) then m else best"
  have 1: "?b \<in> insert m seen" using Cons.prems(1) by simp
  have 2: "\<forall>x \<in> insert m seen. \<not> key_gt (sort_key_of x) (sort_key_of ?b)"
  proof (cases "key_gt (sort_key_of m) (sort_key_of best)")
    case True
    have "\<not> key_gt (sort_key_of x) (sort_key_of m)" if "x \<in> seen" for x
      using that Cons.prems(2) True key_gt_trans by blast
    then show ?thesis using True key_gt_irrefl by simp
  next
    case False
    then show ?thesis using Cons.prems(2) by simp
  qed
  have "max_from ?b ms \<in> insert m seen \<union> set ms \<and>
        (\<forall>x \<in> insert m seen \<union> set ms. \<not> key_gt (sort_key_of x) (sort_key_of (max_from ?b ms)))"
    using Cons.IH[OF 1 2] .
  then show ?case by simp
qed

lemma max_from_maximal:
  "max_from m ms \<in> set (m # ms) \<and>
   (\<forall>x \<in> set (m # ms). \<not> key_gt (sort_key_of x) (sort_key_of (max_from m ms)))"
  using max_from_invariant[of m "{m}" ms] key_gt_irrefl by simp

subsection \<open>The price check\<close>

lemma round2_nonneg:
  assumes "x = PInf \<or> (\<exists>r. x = Finite r \<and> 0 \<le> r)"
  shows "round2 x = PInf \<or> (\<exists>r. round2 x = Finite r \<and> 0 \<le> r)"
  using assms
proof
  assume "x = PInf"
  then show ?thesis by simp
next
  assume "\<exists>r. x = Finite r \<and> 0 \<le> r"
  then obtain r where r: "x = Finite r" "0 \<le> r" by blast
  have "0 \<le> round_half_even (r * 100)" using r(2) by (intro rhe_nonneg) simp
  then have "(0::rat) \<le> of_int (round_half_even (r * 100)) / 100" by simp
  then show ?thesis using r(1) rn_nonneg by simp
qed

lemma fsub_pos:
  assumes "flt deal paid"
  shows "fsub paid deal = PInf \<or> (\<exists>r. fsub paid deal = Finite r \<and> 0 \<le> r)"
proof (cases paid)
  case (Finite a)
  show ?thesis
  proof (cases deal)
    case (Finite b)
    with \<open>paid = Finite a\<close> assms have "0 \<le> a - b" by simp
    then show ?thesis using rn_nonneg[of "a - b"] Finite \<open>paid = Finite a\<close> by simp
  qed (use Finite assms in auto)
qed (use assms in \<open>cases deal; auto\<close>)+

lemma savings_nonneg:
  assumes "flt deal paid"
  shows "fge (round2 (fsub paid deal)) (Finite 0)"
proof -
  have "round2 (fsub paid deal) = PInf \<or> (\<exists>r. round2 (fsub paid deal) = Finite r \<and> 0 \<le> r)"
    using fsub_pos[OF assms] by (rule round2_nonneg)
  then show ?thesis by (auto simp: fge_def fgt_def feq_def)
qed

lemma not_fge_flt: "\<not> fge x y \<Longrightarrow> x \<noteq> NaN \<Longrightarrow> y \<noteq> NaN \<Longrightarrow> flt x y"
  by (cases x; cases y; auto simp: fge_def fgt_def feq_def)

lemma price_check_Some:
  assumes "price_check ps ds = Some s"
  shows "\<exists>paid deal. py_float ps = Some paid \<and> py_float ds = Some deal \<and> \<not> fge deal paid \<and>
           s = round2 (fsub paid deal)"
  using assms by (auto simp: price_check_def split: option.splits if_splits)

lemma match_deal_Some:
  assumes "match_deal ri d = Some m"
  shows "receipt_price m = ri_price ri \<and> deal_price m = sale_price d \<and>
         price_check (ri_price ri) (sale_price d) = Some (savings m)"
  using assms by (auto simp: match_deal_def split: option.splits)

lemma ri_matches_mem:
  "m \<in> set (ri_matches ri drops) \<longleftrightarrow> (\<exists>d \<in> set drops. match_deal ri d = Some m)"
  by (force simp: ri_matches_def List.map_filter_def image_iff)

lemma candidates_of_mem:
  assumes "c \<in> set (candidates_of ri drops)"
  shows "\<exists>m \<in> set (ri_matches ri drops). c = candidate.truncate m"
proof (cases "ri_matches ri drops")
  case Nil
  with assms show ?thesis by (simp add: candidates_of_def best_match_def)
next
  case (Cons m ms)
  then have "c = candidate.truncate (max_from m ms)"
    using assms by (simp add: candidates_of_def best_match_def)
  moreover have "max_from m ms \<in> set (ri_matches ri drops)"
    using max_from_maximal[of m ms] Cons by simp
  ultimately show ?thesis by blast
qed

lemma find_potential_matches_mem:
  "c \<in> set (find_potential_matches receipt_items drops) \<longleftrightarrow>
   (\<exists>ri \<in> set receipt_items. c \<in> set (candidates_of ri drops))"
  by (auto simp: find_potential_matches_def)

lemma truncate_fields:
  "receipt_price (candidate.truncate m) = receipt_price m"
  "deal_price (candidate.truncate m) = deal_price m"
  "savings (candidate.truncate m) = savings m"
  "matched_by (candidate.truncate m) = matched_by m"
  by (simp_all add: candidate.truncate_def)

subsection \<open>The best match\<close>







subsection \<open>The price check of a candidate\<close>

text \<open>Claim C3 (the price check), as the code has it. Every candidate the matcher
  emits has both prices parsed as floats, the deal price not greater than or
  equal to the paid price, and \<open>savings = round(paid - deal, 2)\<close>; when neither
  price is NaN the deal price is strictly below the paid price and the savings
  are greater than or equal to zero (they can be zero). A deal whose price is greater than or equal to
  the paid price, or for which either price fails to parse, produces no match.\<close>

theorem candidate_price_check:
  "(c \<in> set (find_potential_matches receipt_items drops) \<longrightarrow>
      (\<exists>paid deal.
         py_float (receipt_price c) = Some paid \<and> py_float (deal_price c) = Some deal \<and>
         \<not> fge deal paid \<and> savings c = round2 (fsub paid deal) \<and>
         (paid \<noteq> NaN \<and> deal \<noteq> NaN \<longrightarrow> flt deal paid \<and> fge (savings c) (Finite 0)))) \<and>
   (py_float (ri_price ri) = None \<or> py_float (sale_price d) = None \<or>
    (\<exists>paid deal. py_float (ri_price ri) = Some paid \<and> py_float (sale_price d) = Some deal \<and>
                  fge deal paid)
    \<longrightarrow> match_deal ri d = None)"
proof (intro conjI impI)
  assume "c \<in> set (find_potential_matches receipt_items drops)"
  then obtain ri' m d' where m: "c = candidate.truncate m" "match_deal ri' d' = Some m"
    using find_potential_matches_mem candidates_of_mem ri_matches_mem by blast
  then have pc: "price_check (receipt_price c) (deal_price c) = Some (savings c)"
    using match_deal_Some[OF m(2)] by (simp add: truncate_fields)
  then obtain paid deal where pd: "py_float (receipt_price c) = Some paid"
    "py_float (deal_price c) = Some deal" "\<not> fge deal paid" "savings c = round2 (fsub paid deal)"
    using price_check_Some by blast
  have "flt deal paid \<and> fge (savings c) (Finite 0)" if "paid \<noteq> NaN \<and> deal \<noteq> NaN"
    using that pd(3,4) not_fge_flt savings_nonneg by auto
  with pd show "\<exists>paid deal.
         py_float (receipt_price c) = Some paid \<and> py_float (deal_price c) = Some deal \<and>
         \<not> fge deal paid \<and> savings c = round2 (fsub paid deal) \<and>
         (paid \<noteq> NaN \<and> deal \<noteq> NaN \<longrightarrow> flt deal paid \<and> fge (savings c) (Finite 0))"
    by blast
next
  assume "py_float (ri_price ri) = None \<or> py_float (sale_price d) = None \<or>
    (\<exists>paid deal. py_float (ri_price ri) = Some paid \<and> py_float (sale_price d) = Some deal \<and>
                  fge deal paid)"
  then have "price_check (ri_price ri) (sale_price d) = None"
    by (auto simp: price_check_def split: option.splits)
  then show "match_deal ri d = None"
    by (simp add: match_deal_def split: option.splits)
qed

subsection \<open>The deal filter\<close>

text \<open>Claim C4 (the deal filter), as the code has it. The filter keeps exactly the
  deals whose source is in the allowed set (when sources are given), whose
  lower-bound key \<open>promo_end or scanned_date[:10]\<close> is at least \<open>dateFrom\<close> (when
  given), and whose upper-bound key \<open>scanned_date[:10] or promo_end\<close> (with
  \<open>9999\<close> when \<open>promo_end\<close> is absent) is at most \<open>dateTo\<close> (when given). The two
  bounds are tested on different keys: only the lower one is the effective date
  of the specification (\<open>date_from_key_spec\<close> below).\<close>

theorem filter_deals_keeps:
  "filter_deals sources date_from date_to drops =
     filter (\<lambda>d. (given sources \<longrightarrow> get (source d) '''' \<in> set (get sources [])) \<and>
                 (given date_from \<longrightarrow> get date_from '''' \<le> date_from_key d) \<and>
                 (given date_to \<longrightarrow> date_to_key d \<le> get date_to ''''))
       drops"
  by (auto simp: filter_deals_def given_def get_def truthy_def Let_def split: option.splits
           intro: filter_cong)

lemma date_from_key_spec: "date_from_key d = spec_effective_date d"
  by (simp add: date_from_key_def spec_effective_date_def py_or_def get_def truthy_def
           split: option.splits)

subsection \<open>Classification\<close>

lemma two_in_filter:
  "2 \<le> length (filter P xs) \<longleftrightarrow>
   (\<exists>i < length xs. \<exists>j < length xs. i < j \<and> P (xs ! i) \<and> P (xs ! j))"
proof
  assume "2 \<le> length (filter P xs)"
  then obtain a b ys where f: "filter P xs = a # b # ys"
    by (cases "filter P xs"; cases "tl (filter P xs)"; auto)
  then obtain us vs where u: "xs = us @ a # vs" "\<forall>u\<in>set us. \<not> P u" "P a" "b # ys = filter P vs"
    by (auto simp: filter_eq_Cons_iff)
  then obtain us' vs' where v: "vs = us' @ b # vs'" "P b"
    by (metis filter_eq_Cons_iff)
  let ?i = "length us" and ?j = "length us + 1 + length us'"
  have "?i < length xs" "?j < length xs" "?i < ?j" "xs ! ?i = a" "xs ! ?j = b"
    using u(1) v(1) by (auto simp: nth_append)
  then show "\<exists>i < length xs. \<exists>j < length xs. i < j \<and> P (xs ! i) \<and> P (xs ! j)"
    using u(3) v(2) by metis
next
  assume "\<exists>i < length xs. \<exists>j < length xs. i < j \<and> P (xs ! i) \<and> P (xs ! j)"
  then obtain i j where ij: "i < length xs" "j < length xs" "i < j" "P (xs ! i)" "P (xs ! j)"
    by blast
  have "xs = take j xs @ drop j xs" by simp
  then have "filter P xs = filter P (take j xs) @ filter P (drop j xs)"
    by (metis filter_append)
  moreover have "xs ! i \<in> set (take j xs)" using ij by (auto simp: in_set_conv_nth)
  then have "1 \<le> length (filter P (take j xs))"
    using ij(4) by (metis One_nat_def Suc_leI filter_empty_conv length_greater_0_conv)
  moreover have "xs ! j \<in> set (drop j xs)" using ij
    by (metis Cons_nth_drop_Suc list.set_intros(1))
  then have "1 \<le> length (filter P (drop j xs))"
    using ij(5) by (metis One_nat_def Suc_leI filter_empty_conv length_greater_0_conv)
  ultimately show "2 \<le> length (filter P xs)" by simp
qed

lemma single_word: "(length ws = 1 \<and> Q (hd ws)) \<longleftrightarrow> (case ws of [w] \<Rightarrow> Q w | _ \<Rightarrow> False)"
  by (cases ws; cases "tl ws") auto

lemma contains_sublist: "contains s w \<longleftrightarrow> sublist w s"
  by (induction s) (auto simp: sublist_Cons_right)

lemma eq_char_of_iff: "c = char_of (n :: nat) \<longleftrightarrow> take_bit 8 n = of_char c"
  using char_of_eq_iff[of n c] by auto

lemma lower_char_translate: "translate_char ascii_uppercase ascii_lowercase c = lower_char c"
proof (cases "c \<in> set ascii_uppercase")
  case True
  have "\<forall>c \<in> set ascii_uppercase.
          translate_char ascii_uppercase ascii_lowercase c = lower_char c"
    by (simp add: ascii_uppercase_def ascii_lowercase_def translate_char_def lower_char_def
          char_of_eq_iff eq_char_of_iff)
  then show ?thesis using True by blast
next
  case False
  then have "map_of (zip ascii_uppercase ascii_lowercase) c = None"
    by (simp add: map_of_eq_None_iff ascii_uppercase_def ascii_lowercase_def)
  then show ?thesis using False
    by (simp add: translate_char_def lower_char_def ascii_uppercase_def)
qed

lemma lower_spec: "lower s = map lower_char s"
  by (simp add: lower_def translate_def lower_char_translate)

lemma tokens_Nil: "tokens [] = []"
  by (simp add: tokens.simps)

lemma tokens_space: "is_space c \<Longrightarrow> tokens (c # cs) = tokens cs"
  by (simp add: tokens.simps[of "c # cs"] tokens.simps[of cs])

lemma tokens_char:
  "\<not> is_space c \<Longrightarrow>
   tokens (c # cs) =
     (c # takeWhile (\<lambda>x. \<not> is_space x) cs) # tokens (dropWhile (\<lambda>x. \<not> is_space x) cs)"
  by (simp add: tokens.simps[of "c # cs"])

lemma tokens_run:
  "tokens s =
     (if takeWhile (\<lambda>x. \<not> is_space x) s = [] then [] else [takeWhile (\<lambda>x. \<not> is_space x) s]) @
     tokens (dropWhile (\<lambda>x. \<not> is_space x) s)"
proof (cases s)
  case Nil
  then show ?thesis by (simp add: tokens_Nil)
next
  case (Cons c cs)
  then show ?thesis by (cases "is_space c") (simp_all add: tokens_char)
qed

lemma split_acc_tokens:
  "split_acc w s =
     (if w = [] \<and> takeWhile (\<lambda>x. \<not> is_space x) s = [] then []
      else [w @ takeWhile (\<lambda>x. \<not> is_space x) s]) @
     tokens (dropWhile (\<lambda>x. \<not> is_space x) s)"
proof (induction s arbitrary: w)
  case Nil
  then show ?case by (simp add: tokens_Nil)
next
  case (Cons c cs)
  show ?case
  proof (cases "is_space c")
    case True
    have "split_acc [] cs = tokens cs"
      using Cons.IH[of "[]"] tokens_run[of cs] by simp
    then show ?thesis using True by (simp add: tokens_space)
  next
    case False
    then show ?thesis using Cons.IH[of "w @ [c]"] by simp
  qed
qed

lemma split_tokens: "split s = tokens s"
  using split_acc_tokens[of "[]" s] tokens_run[of s] by (simp add: split_def)

lemma ri_words_kept: "ri_words nm = kept_tokens nm"
  by (simp add: ri_words_def kept_tokens_def skip_words_def stop_list_def replace_char_def
        split_tokens lower_spec)

lemma contains_fun: "contains s = (\<lambda>w. sublist w s)"
  by (rule ext) (simp add: contains_sublist)

lemma classify_tokens: "classify ri_num ws d = token_classify ri_num ws d"
proof -
  let ?n = "map lower_char (item_name d)"
  have kw: "(2 \<le> length ws \<and> 2 \<le> length (filter (\<lambda>w. sublist w ?n) ws)) \<or>
        (length ws = 1 \<and> 5 \<le> length (hd ws) \<and> sublist (hd ws) ?n)
        \<longleftrightarrow> rule_keyword_tokens ws ?n"
    unfolding rule_keyword_tokens_def two_in_filter[of "\<lambda>w. sublist w ?n" ws, symmetric]
      single_word[of ws "\<lambda>w. 5 \<le> length w \<and> sublist w ?n"]
    using order_trans[OF _ length_filter_le[of "\<lambda>w. sublist w ?n" ws], of 2] by blast
  have e: "(if 2 \<le> length ws \<and> 2 \<le> length (filter (\<lambda>w. sublist w ?n) ws)
            then Some name_keyword
            else if length ws = 1 \<and> 5 \<le> length (hd ws) \<and> sublist (hd ws) ?n
            then Some name_keyword else None) =
           (if rule_keyword_tokens ws ?n then Some name_keyword else None)"
    using kw by auto
  show ?thesis
    unfolding classify_def token_classify_def rule_exact_def rule_partial_def truthy_def Let_def
      contains_fun lower_spec
    by (simp only: e)
qed

lemma rule_keyword_distinct:
  assumes "distinct ws"
  shows "rule_keyword_tokens ws n \<longleftrightarrow> rule_keyword (set ws) n"
proof -
  have c1: "card (set ws) = length ws" using assms by (rule distinct_card)
  have c2: "card {w \<in> set ws. sublist w n} = length (filter (\<lambda>w. sublist w n) ws)"
    using distinct_card[of "filter (\<lambda>w. sublist w n) ws"] assms by simp
  have s: "(length ws = 1 \<and> (\<forall>w \<in> set ws. 5 \<le> length w \<and> sublist w n)) \<longleftrightarrow>
           (case ws of [w] \<Rightarrow> 5 \<le> length w \<and> sublist w n | _ \<Rightarrow> False)"
    by (cases ws; cases "tl ws") auto
  have l: "2 \<le> length (filter (\<lambda>w. sublist w n) ws) \<Longrightarrow> 2 \<le> length ws"
    by (rule order_trans[OF _ length_filter_le])
  show ?thesis
    unfolding rule_keyword_tokens_def rule_keyword_def c1 c2 s
      two_in_filter[of "\<lambda>w. sublist w n" ws, symmetric]
    using l by blast
qed

text \<open>Claim C5 (classification), as the code has it. The matcher classifies a
  receipt item and a deal by the first rule that holds, in the order
  \<open>exact_item_number\<close> (both numbers present and equal), \<open>partial_item_number\<close>
  (both present, both of length at least 5, first five characters equal),
  \<open>name_keyword\<close>, else no match. The keywords are the list of the tokens kept
  from the item name (lower-cased, \<open>/\<close> replaced by a blank, split on white space,
  tokens of length at least 4 outside the stop list), and the elements of this
  list are the keyword set of the specification. The keyword rule counts the
  tokens of the list, a repeated token once for each occurrence: the tokens at
  two positions occur in the deal's lower-cased name, or the list has one token,
  of length at least 5, which occurs in it. When no kept token is repeated this
  is the keyword rule of the specification on the keyword set.\<close>

theorem classify_by_rules:
  "ri_words nm = kept_tokens nm \<and> set (ri_words nm) = spec_keywords nm \<and>
   classify ri_num (ri_words nm) d = token_classify ri_num (kept_tokens nm) d \<and>
   (distinct (kept_tokens nm) \<longrightarrow>
      classify ri_num (ri_words nm) d = spec_classify ri_num (spec_keywords nm) d)"
proof -
  have "token_classify ri_num (kept_tokens nm) d = spec_classify ri_num (spec_keywords nm) d"
    if "distinct (kept_tokens nm)"
    using rule_keyword_distinct[OF that]
    by (simp add: token_classify_def spec_classify_def spec_keywords_def)
  then show ?thesis
    by (simp add: ri_words_kept classify_tokens spec_keywords_def)
qed

section \<open>The claims on concrete inputs\<close>


subsection \<open>Evaluation on concrete inputs\<close>

lemmas str_defs = c_strip_def c_isspace_def strip_def is_space_def strip_underscores_def
  is_digit_def read_sign_def lower_def upper_def translate_def translate_char_def
  ascii_lowercase_def ascii_uppercase_def rstrip_chars_def remove_char_def replace_char_def
  startswith_def endswith_char_def split_def isdigit_def truthy_def get_def

lemmas num_defs = py_float_def py_int_def read_number_def read_exponent_def nat_of_digits_def
  digit_val_def Let_def

lemmas line_defs = raw_line_def qty_match_def member_match_def noise_match_def ocr_class_def
  item_number_match_def has_tpd_marker_def noise_step_def noise_loop_def price_noise_chars_def
  clean_price_of_def is_discount_line_def

lemmas finalize_defs = set_defaults_def check_qty_def ocr_fix_def recover_from_name_def
  clear_long_number_def strip_number_prefix_def recover_item_number_def finalize_def

lemma py_float_10_00: "py_float ''10.00'' = Some (Finite 10)"
  by (simp add: str_defs num_defs rn_numeral)

lemma py_float_3_00: "py_float ''3.00'' = Some (Finite 3)"
  by (simp add: str_defs num_defs rn_numeral)

lemma py_float_12_00: "py_float ''12.00'' = Some (Finite 12)"
  by (simp add: str_defs num_defs rn_numeral)

lemma py_int_1: "py_int ''1'' = Some 1"
  by (simp add: str_defs num_defs)

lemma py_int_3: "py_int ''3'' = Some 3"
  by (simp add: str_defs num_defs)

lemma clean_price_10_00: "clean_price_of (raw_line n ''10.00'' q i) = ''10.00''"
  by (simp add: line_defs str_defs)

lemma clean_price_3_00: "clean_price_of (raw_line n ''3.00-'' q i) = ''3.00-''"
  by (simp add: line_defs str_defs)

lemma clean_price_12_00: "clean_price_of (raw_line n ''12.00-'' q i) = ''12.00-''"
  by (simp add: line_defs str_defs)

lemma check_qty_one:
  "check_qty (set_defaults ''10.00'' (raw_line n p ''1'' i)) =
     Inr (set_defaults ''10.00'' (raw_line n p ''1'' i))"
  by (simp add: check_qty_def set_defaults_def raw_line_def get_def remove_char_def py_int_1
        py_float_10_00)

lemma finalize_widget:
  "finalize (raw_line ''1234567 WIDGET'' ''10.00'' ''1'' '''') =
     Inr \<lparr>name = Some ''WIDGET'', price = Some ''10.00'', qty = Some ''1'',
          item_number = Some ''1234567'', tpd = Some False, original_price = Some ''''\<rparr>"
  unfolding finalize_def clean_price_10_00 check_qty_one
  by (simp add: recover_item_number_def recover_from_name_def clear_long_number_def
        strip_number_prefix_def ocr_fix_def item_number_match_def ocr_class_def set_defaults_def
        raw_line_def str_defs)

lemma not_discount_widget: "\<not> is_discount_line (raw_line ''1234567 WIDGET'' ''10.00'' ''1'' '''')"
  unfolding is_discount_line_def clean_price_10_00
  by (simp add: raw_line_def has_tpd_marker_def str_defs)

lemma merged_widget:
  "merge_loop [] [raw_line ''1234567 WIDGET'' ''10.00'' ''1'' ''''] =
     Inr [\<lparr>name = Some ''WIDGET'', price = Some ''10.00'', qty = Some ''1'',
           item_number = Some ''1234567'', tpd = Some False, original_price = Some ''''\<rparr>]"
  by (simp add: merge_step_def not_discount_widget finalize_widget)

lemma discount_tpd_3: "is_discount_line (raw_line ''TPD/1234567'' ''3.00-'' ''1'' '''')"
  unfolding is_discount_line_def clean_price_3_00 by (simp add: endswith_char_def)

lemma discount_tpd_12: "is_discount_line (raw_line ''TPD/1234567'' ''12.00-'' ''1'' '''')"
  unfolding is_discount_line_def clean_price_12_00 by (simp add: endswith_char_def)

lemma fmt2f_7: "fmt2f (fsub (Finite 10) (Finite 3)) = ''7.00''"
  by (simp add: rn_numeral round_half_even_def digit_char_def)

text \<open>Claim C1 on a receipt: a widget bought for 10.00 followed by a TPD line of
  3.00- becomes one item at 7.00 with original price 10.00 and \<open>tpd\<close> set.\<close>

theorem fold_correct_witness:
  "merge_loop [] ([raw_line ''1234567 WIDGET'' ''10.00'' ''1'' ''''] @
                  [raw_line ''TPD/1234567'' ''3.00-'' ''1'' '''']) =
     Inr [\<lparr>name = Some ''WIDGET'', price = Some ''7.00'', qty = Some ''1'',
           item_number = Some ''1234567'', tpd = Some True, original_price = Some ''10.00''\<rparr>]"
proof -
  have d: "py_float (remove_char CHR ''-''
             (clean_price_of (raw_line ''TPD/1234567'' ''3.00-'' ''1'' ''''))) = Some (Finite 3)"
    unfolding clean_price_3_00 by (simp add: remove_char_def py_float_3_00)
  show ?thesis
    using fold_correct[OF merged_widget _ discount_tpd_3 d _ py_float_10_00] fmt2f_7
    by simp
qed

text \<open>Claim C7 on a receipt: a TPD line of 12.00- after a widget bought for 10.00
  leaves the widget as it was and adds nothing.\<close>

theorem fold_skip_witness:
  "merge_loop [] ([raw_line ''1234567 WIDGET'' ''10.00'' ''1'' ''''] @
                  [raw_line ''TPD/1234567'' ''12.00-'' ''1'' '''']) =
     Inr [\<lparr>name = Some ''WIDGET'', price = Some ''10.00'', qty = Some ''1'',
           item_number = Some ''1234567'', tpd = Some False, original_price = Some ''''\<rparr>]"
proof -
  have d: "py_float (remove_char CHR ''-''
             (clean_price_of (raw_line ''TPD/1234567'' ''12.00-'' ''1'' ''''))) = Some (Finite 12)"
    unfolding clean_price_12_00 by (simp add: remove_char_def py_float_12_00)
  have g: "fge (Finite 12) (Finite 10)" by (simp add: fge_def fgt_def)
  show ?thesis
    using fold_skip[OF merged_widget _ discount_tpd_12 d _ py_float_10_00 g]
    by simp
qed


lemma raw_line_sel:
  "name (raw_line n p q i) = Some n" "price (raw_line n p q i) = Some p"
  "qty (raw_line n p q i) = Some q" "item_number (raw_line n p q i) = Some i"
  "tpd (raw_line n p q i) = None" "original_price (raw_line n p q i) = None"
  by (simp_all add: raw_line_def)

lemma noise_loop_tpd:
  "noise_loop [raw_line ''TPD/1234567'' ''3.00-'' ''1'' ''''] =
     [raw_line ''TPD/1234567'' ''3.00-'' ''1'' '''']"
  by (simp add: noise_loop_def noise_step_def qty_match_def noise_match_def member_match_def
        has_tpd_marker_def raw_line_def str_defs)

lemma finalize_tpd:
  "finalize (raw_line ''TPD/1234567'' ''3.00-'' ''1'' '''') =
     Inr \<lparr>name = Some ''TPD/1234567'', price = Some ''3.00'', qty = Some ''1'',
          item_number = Some '''', tpd = Some False, original_price = Some ''''\<rparr>"
  unfolding finalize_def clean_price_3_00
  by (simp add: check_qty_def set_defaults_def raw_line_def get_def remove_char_def py_int_1
        py_float_3_00 recover_item_number_def recover_from_name_def clear_long_number_def
        strip_number_prefix_def item_number_match_def ocr_class_def is_digit_def truthy_def)

lemma noise_loop_tpd_widget:
  "noise_loop [raw_line ''TPD/1234567'' ''3.00-'' ''1'' '''',
               raw_line ''1234567 WIDGET'' ''10.00'' ''1'' ''''] =
     [raw_line ''TPD/1234567'' ''3.00-'' ''1'' '''',
      raw_line ''1234567 WIDGET'' ''10.00'' ''1'' '''']"
  by (simp add: noise_loop_def noise_step_def qty_match_def noise_match_def member_match_def
        has_tpd_marker_def raw_line_def str_defs)

text \<open>Claim C10 on two receipts. A TPD line of 3.00- with nothing before it and
  nothing after it is emitted as an item priced 3.00, not flagged and without
  original price; followed by a widget bought for 10.00, it is emitted in the
  same way, before the widget.\<close>

theorem leading_discount_line_emitted_witness:
  "post_process [raw_line ''TPD/1234567'' ''3.00-'' ''1'' ''''] =
     Inr [\<lparr>name = Some ''TPD/1234567'', price = Some ''3.00'', qty = Some ''1'',
           item_number = Some '''', tpd = Some False, original_price = Some ''''\<rparr>] \<and>
   post_process [raw_line ''TPD/1234567'' ''3.00-'' ''1'' '''',
                 raw_line ''1234567 WIDGET'' ''10.00'' ''1'' ''''] =
     Inr [\<lparr>name = Some ''TPD/1234567'', price = Some ''3.00'', qty = Some ''1'',
           item_number = Some '''', tpd = Some False, original_price = Some ''''\<rparr>,
          \<lparr>name = Some ''WIDGET'', price = Some ''10.00'', qty = Some ''1'',
           item_number = Some ''1234567'', tpd = Some False, original_price = Some ''''\<rparr>]"
proof
  show "post_process [raw_line ''TPD/1234567'' ''3.00-'' ''1'' ''''] =
     Inr [\<lparr>name = Some ''TPD/1234567'', price = Some ''3.00'', qty = Some ''1'',
           item_number = Some '''', tpd = Some False, original_price = Some ''''\<rparr>]"
    using leading_discount_line_emitted[OF noise_loop_tpd discount_tpd_3 finalize_tpd]
    by simp
next
  show "post_process [raw_line ''TPD/1234567'' ''3.00-'' ''1'' '''',
                 raw_line ''1234567 WIDGET'' ''10.00'' ''1'' ''''] =
     Inr [\<lparr>name = Some ''TPD/1234567'', price = Some ''3.00'', qty = Some ''1'',
           item_number = Some '''', tpd = Some False, original_price = Some ''''\<rparr>,
          \<lparr>name = Some ''WIDGET'', price = Some ''10.00'', qty = Some ''1'',
           item_number = Some ''1234567'', tpd = Some False, original_price = Some ''''\<rparr>]"
    using leading_discount_line_emitted[OF noise_loop_tpd_widget discount_tpd_3 finalize_tpd]
    by (simp add: merge_step_def not_discount_widget finalize_widget)
qed

subsection \<open>Two discount lines\<close>

lemma noise_loop_two_tpd:
  "noise_loop [raw_line ''TPD/1234567'' ''3.00-'' ''1'' '''',
               raw_line ''TPD/7654321'' ''1.00-'' ''1'' ''''] =
     [raw_line ''TPD/1234567'' ''3.00-'' ''1'' '''',
      raw_line ''TPD/7654321'' ''1.00-'' ''1'' '''']"
  by (simp add: noise_loop_def noise_step_def qty_match_def noise_match_def member_match_def
        has_tpd_marker_def raw_line_def str_defs)

lemma clean_price_1_00: "clean_price_of (raw_line n ''1.00-'' q i) = ''1.00-''"
  by (simp add: line_defs str_defs)

lemma py_float_1_00: "py_float ''1.00'' = Some (Finite 1)"
  using rn_numeral[of num.One] by (simp add: str_defs num_defs)

lemma discount_tpd_1: "is_discount_line (raw_line ''TPD/7654321'' ''1.00-'' ''1'' '''')"
  unfolding is_discount_line_def clean_price_1_00 by (simp add: endswith_char_def)

lemma fmt2f_2: "fmt2f (fsub (Finite 3) (Finite 1)) = ''2.00''"
  by (simp add: rn_numeral round_half_even_def digit_char_def)

lemma fold_one_into_three:
  "fold_discount \<lparr>name = Some ''TPD/1234567'', price = Some ''3.00'', qty = Some ''1'',
                  item_number = Some '''', tpd = Some False, original_price = Some ''''\<rparr>
     ''1.00-'' =
   Inr \<lparr>name = Some ''TPD/1234567'', price = Some ''2.00'', qty = Some ''1'',
        item_number = Some '''', tpd = Some True, original_price = Some ''3.00''\<rparr>"
proof -
  have d: "py_float (remove_char CHR ''-'' ''1.00-'') = Some (Finite 1)"
    by (simp add: remove_char_def py_float_1_00)
  show ?thesis
    unfolding fold_discount_def d by (simp add: py_float_3_00 fmt2f_2 del: fmt2f.simps fsub.simps)
qed

text \<open>Claim C10 says that a leading discount line is emitted with \<open>tpd\<close> false, an
  empty \<open>original_price\<close> and its own price. When a second discount line follows
  it, of 1.00- after 3.00-, the second is folded into the first: the one item
  emitted has the price 2.00, the original price 3.00 and \<open>tpd\<close> set.\<close>

theorem leading_discount_folded_counterexample:
  "post_process [raw_line ''TPD/1234567'' ''3.00-'' ''1'' '''',
                 raw_line ''TPD/7654321'' ''1.00-'' ''1'' ''''] =
     Inr [\<lparr>name = Some ''TPD/1234567'', price = Some ''2.00'', qty = Some ''1'',
           item_number = Some '''', tpd = Some True, original_price = Some ''3.00''\<rparr>]"
  unfolding post_process_def noise_loop_two_tpd
  by (simp add: merge_step_def finalize_tpd discount_tpd_1 clean_price_1_00 fold_one_into_three)

subsection \<open>Item numbers\<close>

lemma finalize_qty_one:
  "finalize (raw_line n ''10.00'' ''1'' i) =
     Inr (recover_item_number (set_defaults ''10.00'' (raw_line n ''10.00'' ''1'' i)))"
  unfolding finalize_def clean_price_10_00 check_qty_one by simp

lemma token_O123456: "begins_with_token ''O123456 WIDGET'' ''O123456'' '' WIDGET''"
  by (simp add: begins_with_token_def is_space_def)

lemma strip_WIDGET: "strip '' WIDGET'' = ''WIDGET''"
  by (simp add: strip_def is_space_def)

text \<open>Claim C6 on three lines: the name \<open>O123456 WIDGET\<close> with an empty number gives
  number \<open>0123456\<close> and name \<open>WIDGET\<close>; a ten-digit number is cleared; and a
  number that the name begins with is stripped from the name.\<close>

theorem item_number_recovery_witness:
  "(\<exists>it. finalize (raw_line ''O123456 WIDGET'' ''10.00'' ''1'' '''') = Inr it \<and>
         item_number it = Some ''0123456'' \<and> name it = Some ''WIDGET'') \<and>
   (\<exists>it. finalize (raw_line ''WIDGET'' ''10.00'' ''1'' ''1234567890'') = Inr it \<and>
         item_number it = Some '''' \<and> name it = Some ''WIDGET'') \<and>
   (\<exists>it. finalize (raw_line ''1234 WIDGET'' ''10.00'' ''1'' ''1234'') = Inr it \<and>
         item_number it = Some ''1234'' \<and> name it = Some ''WIDGET'')"
proof (intro conjI)
  let ?a = "raw_line ''O123456 WIDGET'' ''10.00'' ''1'' ''''"
  have "get (item_number ?a) '''' = '''' \<and> begins_with_token (get (name ?a) '''')
          ''O123456'' '' WIDGET''"
    using token_O123456 by (simp add: raw_line_sel get_def)
  then show "\<exists>it. finalize ?a = Inr it \<and> item_number it = Some ''0123456'' \<and>
               name it = Some ''WIDGET''"
    using item_number_recovery[OF finalize_qty_one, of "''O123456 WIDGET''" "''''"
        "''O123456''" "'' WIDGET''"]
    by (simp add: finalize_qty_one strip_WIDGET startswith_def raw_line_sel get_def)
next
  let ?b = "raw_line ''WIDGET'' ''10.00'' ''1'' ''1234567890''"
  have "8 < length (get (item_number ?b) '''')" by (simp add: raw_line_sel get_def)
  then show "\<exists>it. finalize ?b = Inr it \<and> item_number it = Some '''' \<and>
               name it = Some ''WIDGET''"
    using item_number_recovery[OF finalize_qty_one, of "''WIDGET''" "''1234567890''"
        "''''" "''''"]
    by (simp add: finalize_qty_one raw_line_sel get_def)
next
  let ?c = "raw_line ''1234 WIDGET'' ''10.00'' ''1'' ''1234''"
  have "get (item_number ?c) '''' \<noteq> '''' \<and> length (get (item_number ?c) '''') \<le> 8"
    by (simp add: raw_line_sel get_def)
  then show "\<exists>it. finalize ?c = Inr it \<and> item_number it = Some ''1234'' \<and>
               name it = Some ''WIDGET''"
    using item_number_recovery[OF finalize_qty_one, of "''1234 WIDGET''" "''1234''"
        "''''" "''''"]
    by (simp add: finalize_qty_one raw_line_sel get_def startswith_def strip_WIDGET)
qed

subsection \<open>Ten divided by three, by six and by four\<close>

lemma py_int_6: "py_int ''6'' = Some 6"
  by (simp add: str_defs num_defs)

lemma py_int_4: "py_int ''4'' = Some 4"
  by (simp add: str_defs num_defs)

lemma int_to_float_3: "int_to_float 3 = Some (Finite 3)"
  by (simp add: int_to_float_def rn_numeral)

lemma int_to_float_6: "int_to_float 6 = Some (Finite 6)"
  by (simp add: int_to_float_def rn_numeral)

lemma int_to_float_4: "int_to_float 4 = Some (Finite 4)"
  by (simp add: int_to_float_def rn_numeral)

lemma rn_third: "rn (10 / 3) = Finite (7505999378950827 / 2251799813685248)"
  using rn_eval[of "10 / 3" 1 7505999378950827] by simp

lemma third_of_ten:
  "fdiv (Finite 10) (Finite 3) = Some (Finite (7505999378950827 / 2251799813685248))"
  by (simp add: rn_third)

lemma round2_third:
  "round2 (Finite (7505999378950827 / 2251799813685248)) =
     Finite (1874623344892969 / 562949953421312)"
proof -
  have "round_half_even (7505999378950827 / 2251799813685248 * 100) = 333"
    by (rule rhe_eval) simp_all
  moreover have "rn (333 / 100) = Finite (1874623344892969 / 562949953421312)"
    using rn_eval[of "333 / 100" 1 7498493379571876] by simp
  ultimately show ?thesis by simp
qed

lemma third_difference:
  "fsub (Finite (7505999378950827 / 2251799813685248))
        (Finite (1874623344892969 / 562949953421312)) =
     Finite (7505999378951 / 2251799813685248)"
  using rn_exact[of "7505999378951 / 2251799813685248" 7505999378951 "- 51"] by simp

lemma third_outside:
  "outside_tolerance (fsub (Finite (7505999378950827 / 2251799813685248))
                           (round2 (Finite (7505999378950827 / 2251799813685248))))"
  unfolding round2_third third_difference
  by (simp add: outside_tolerance_def spec_tolerance_def)

lemma rn_sixth: "rn (5 / 3) = Finite (7505999378950827 / 4503599627370496)"
  using rn_eval[of "5 / 3" 0 7505999378950827] by simp

lemma sixth_of_ten:
  "fdiv (Finite 10) (Finite 6) = Some (Finite (7505999378950827 / 4503599627370496))"
  by (simp add: rn_sixth)

lemma round2_sixth:
  "round2 (Finite (7505999378950827 / 4503599627370496)) =
     Finite (940126422213591 / 562949953421312)"
proof -
  have "round_half_even (7505999378950827 / 4503599627370496 * 100) = 167"
    by (rule rhe_eval) simp_all
  moreover have "rn (167 / 100) = Finite (940126422213591 / 562949953421312)"
    using rn_eval[of "167 / 100" 0 7521011377708728] by simp
  ultimately show ?thesis by simp
qed

lemma rn_minus:
  assumes "0 < a" "rn a = Finite r"
  shows "rn (- a) = Finite (- r)"
  using assms by (auto simp: rn_def Let_def split: if_splits)

lemma sixth_difference:
  "fsub (Finite (7505999378950827 / 4503599627370496))
        (Finite (940126422213591 / 562949953421312)) =
     Finite (- (15011998757901 / 4503599627370496))"
proof -
  have "rn (15011998757901 / 4503599627370496) = Finite (15011998757901 / 4503599627370496)"
    using rn_exact[of "15011998757901 / 4503599627370496" 15011998757901 "- 52"] by simp
  then have "rn (- (15011998757901 / 4503599627370496)) =
               Finite (- (15011998757901 / 4503599627370496))"
    by (intro rn_minus) simp_all
  then show ?thesis by simp
qed

lemma sixth_outside:
  "outside_tolerance (fsub (Finite (7505999378950827 / 4503599627370496))
                           (round2 (Finite (7505999378950827 / 4503599627370496))))"
  unfolding round2_sixth sixth_difference
  by (simp add: outside_tolerance_def spec_tolerance_def)

lemma rn_five_halves: "rn (5 / 2) = Finite (5 / 2)"
  using rn_exact[of "5 / 2" 5 "- 1"] by simp

lemma fourth_of_ten: "fdiv (Finite 10) (Finite 4) = Some (Finite (5 / 2))"
  by (simp add: rn_five_halves)

lemma round2_fourth: "round2 (Finite (5 / 2)) = Finite (5 / 2)"
proof -
  have "round_half_even (5 / 2 * 100) = 250"
    using rhe_of_int[of 250] by simp
  then show ?thesis by (simp add: rn_five_halves)
qed

lemma fourth_inside:
  "\<not> outside_tolerance (fsub (Finite (5 / 2)) (round2 (Finite (5 / 2))))"
  unfolding round2_fourth
  by (simp add: outside_tolerance_def spec_tolerance_def rn_def)

lemma check_qty_eval:
  assumes "py_int (get (qty item) ''1'') = Some q" "1 < q"
    "price item = Some ps" "py_float ps = Some p" "int_to_float q = Some qf" "fdiv p qf = Some x"
  shows "check_qty item =
           Inr (if fgt (fabs (fsub x (round2 x))) tolerance then item\<lparr>qty := Some ''1''\<rparr>
                else item)"
  using assms by (simp add: check_qty_def)

lemma check_qty_overflow:
  assumes "py_int (get (qty item) ''1'') = Some q" "1 < q"
    "price item = Some ps" "py_float ps = Some p" "int_to_float q = None"
  shows "check_qty item = Inl OverflowError"
  using assms by (simp add: check_qty_def)

lemma finalize_returns:
  assumes "py_int qs = Some q" "1 < q" "int_to_float q = Some qf"
    "fdiv (Finite 10) qf = Some x"
  shows "\<exists>it. finalize (raw_line ''WIDGET'' ''10.00'' qs '''') = Inr it"
proof -
  let ?item = "set_defaults ''10.00'' (raw_line ''WIDGET'' ''10.00'' qs '''')"
  have q: "py_int (get (qty ?item) ''1'') = Some q"
    using assms(1) by (simp add: set_defaults_def raw_line_def get_def)
  have p: "price ?item = Some ''10.00''"
    by (simp add: set_defaults_def remove_char_def)
  have "\<exists>item'. check_qty ?item = Inr item'"
    using check_qty_eval[OF q assms(2) p py_float_10_00 assms(3,4)] by simp
  then show ?thesis
    unfolding finalize_def clean_price_10_00 by auto
qed

text \<open>Claim C8 on three lines at the price 10.00. Quantity 3 is reset to 1: 10.00 / 3
  lies above its rounding to two decimals by more than 0.001. Quantity 6 is
  reset to 1: 10.00 / 6 lies below its rounding 1.67 by more than 0.001.
  Quantity 4 is kept: 10.00 / 4 is 2.50.\<close>

theorem qty_divisibility_check_witness:
  "(\<exists>it. finalize (raw_line ''WIDGET'' ''10.00'' ''3'' '''') = Inr it \<and> qty it = Some ''1'') \<and>
   (\<exists>it. finalize (raw_line ''WIDGET'' ''10.00'' ''6'' '''') = Inr it \<and> qty it = Some ''1'') \<and>
   (\<exists>it. finalize (raw_line ''WIDGET'' ''10.00'' ''4'' '''') = Inr it \<and> qty it = Some ''4'')"
proof (intro conjI)
  have p: "py_float (remove_char CHR ''-''
             (clean_price_of (raw_line ''WIDGET'' ''10.00'' qs ''''))) = Some (Finite 10)" for qs
    unfolding clean_price_10_00 by (simp add: remove_char_def py_float_10_00)
  have q: "py_int (get (qty (raw_line ''WIDGET'' ''10.00'' qs '''')) ''1'') = py_int qs" for qs
    by (simp add: raw_line_def get_def)
  show "\<exists>it. finalize (raw_line ''WIDGET'' ''10.00'' ''3'' '''') = Inr it \<and> qty it = Some ''1''"
  proof -
    obtain it where it: "finalize (raw_line ''WIDGET'' ''10.00'' ''3'' '''') = Inr it"
      using finalize_returns[OF py_int_3 _ int_to_float_3 third_of_ten] by auto
    have "py_int (get (qty (raw_line ''WIDGET'' ''10.00'' ''3'' '''')) ''1'') = Some 3"
      unfolding q by (rule py_int_3)
    then obtain qf x where qx: "int_to_float 3 = Some qf" "fdiv (Finite 10) qf = Some x"
      "qty it = (if outside_tolerance (fsub x (round2 x)) then Some ''1''
                 else qty (raw_line ''WIDGET'' ''10.00'' ''3'' ''''))"
      using qty_divisibility_check[OF _ _ p it, of 3] by auto
    have qf: "qf = Finite 3" using qx(1) unfolding int_to_float_3 by simp
    have "x = Finite (7505999378950827 / 2251799813685248)"
      using qx(2) unfolding qf third_of_ten by simp
    then have "qty it = Some ''1''" using qx(3) by (simp only: third_outside if_True)
    with it show ?thesis by blast
  qed
  show "\<exists>it. finalize (raw_line ''WIDGET'' ''10.00'' ''6'' '''') = Inr it \<and> qty it = Some ''1''"
  proof -
    obtain it where it: "finalize (raw_line ''WIDGET'' ''10.00'' ''6'' '''') = Inr it"
      using finalize_returns[OF py_int_6 _ int_to_float_6 sixth_of_ten] by auto
    have "py_int (get (qty (raw_line ''WIDGET'' ''10.00'' ''6'' '''')) ''1'') = Some 6"
      unfolding q by (rule py_int_6)
    then obtain qf x where qx: "int_to_float 6 = Some qf" "fdiv (Finite 10) qf = Some x"
      "qty it = (if outside_tolerance (fsub x (round2 x)) then Some ''1''
                 else qty (raw_line ''WIDGET'' ''10.00'' ''6'' ''''))"
      using qty_divisibility_check[OF _ _ p it, of 6] by auto
    have qf: "qf = Finite 6" using qx(1) unfolding int_to_float_6 by simp
    have "x = Finite (7505999378950827 / 4503599627370496)"
      using qx(2) unfolding qf sixth_of_ten by simp
    then have "qty it = Some ''1''" using qx(3) by (simp only: sixth_outside if_True)
    with it show ?thesis by blast
  qed
  show "\<exists>it. finalize (raw_line ''WIDGET'' ''10.00'' ''4'' '''') = Inr it \<and> qty it = Some ''4''"
  proof -
    obtain it where it: "finalize (raw_line ''WIDGET'' ''10.00'' ''4'' '''') = Inr it"
      using finalize_returns[OF py_int_4 _ int_to_float_4 fourth_of_ten] by auto
    have "py_int (get (qty (raw_line ''WIDGET'' ''10.00'' ''4'' '''')) ''1'') = Some 4"
      unfolding q by (rule py_int_4)
    then obtain qf x where qx: "int_to_float 4 = Some qf" "fdiv (Finite 10) qf = Some x"
      "qty it = (if outside_tolerance (fsub x (round2 x)) then Some ''1''
                 else qty (raw_line ''WIDGET'' ''10.00'' ''4'' ''''))"
      using qty_divisibility_check[OF _ _ p it, of 4] by auto
    have qf: "qf = Finite 4" using qx(1) unfolding int_to_float_4 by simp
    have "x = Finite (5 / 2)"
      using qx(2) unfolding qf fourth_of_ten by simp
    then have "qty it = qty (raw_line ''WIDGET'' ''10.00'' ''4'' '''')"
      using qx(3) by (simp only: fourth_inside if_False)
    then have "qty it = Some ''4''" by (simp add: raw_line_def)
    with it show ?thesis by blast
  qed
qed

subsection \<open>A quantity too large for a float\<close>

lemma foldl_zeros:
  "foldl (\<lambda>a c. 10 * a + digit_val c) a (replicate n (CHR ''0'')) = a * 10 ^ n"
  by (induction n arbitrary: a) (simp_all add: digit_val_def)

lemma nat_of_digits_huge: "nat_of_digits huge_qty = 10 ^ 309"
proof -
  have "nat_of_digits huge_qty = (10 * 0 + digit_val CHR ''1'') * 10 ^ 309"
    unfolding nat_of_digits_def huge_qty_def foldl_Cons foldl_zeros ..
  then show ?thesis by (simp add: digit_val_def)
qed

lemma strip_underscores_digits:
  "\<forall>c \<in> set s. is_digit c \<Longrightarrow> strip_underscores_from b s = Some s"
  by (induction s arbitrary: b) (auto simp: is_digit_def)

lemma digit_not_space: "is_digit c \<Longrightarrow> \<not> c_isspace c"
  by (auto simp: is_digit_def c_isspace_def)

lemma dropWhile_none: "\<forall>c \<in> set xs. \<not> P c \<Longrightarrow> dropWhile P xs = xs"
  by (cases xs) simp_all

lemma c_strip_digits:
  assumes "\<forall>c \<in> set s. is_digit c"
  shows "c_strip s = s"
proof -
  have n: "\<forall>c \<in> set s. \<not> c_isspace c" using assms digit_not_space by blast
  have 1: "dropWhile c_isspace s = s" using n by (rule dropWhile_none)
  have "\<forall>c \<in> set (rev s). \<not> c_isspace c" using n by simp
  then have 2: "dropWhile c_isspace (rev s) = rev s" by (rule dropWhile_none)
  show ?thesis by (simp add: c_strip_def 1 2)
qed

lemma py_int_digits:
  assumes "isdigit s"
  shows "py_int s = Some (int (nat_of_digits s))"
proof -
  have d: "\<forall>c \<in> set s. is_digit c" and ne: "s \<noteq> []" using assms by (auto simp: isdigit_def)
  obtain c cs where s: "s = c # cs" using ne by (cases s) auto
  have "is_digit c" using d s by simp
  then have "c \<noteq> CHR ''-''" "c \<noteq> CHR ''+''" by (auto simp: is_digit_def)
  then have r: "read_sign s = (False, s)" by (simp add: read_sign_def s)
  show ?thesis
    using assms by (simp add: py_int_def c_strip_digits[OF d] strip_underscores_def
        strip_underscores_digits[OF d] r)
qed

lemma isdigit_huge: "isdigit huge_qty"
  by (simp add: isdigit_def huge_qty_def is_digit_def)

lemma py_int_huge: "py_int huge_qty = Some (int (nat_of_digits huge_qty))"
  using isdigit_huge by (rule py_int_digits)

lemma huge_gt_1: "1 < int (nat_of_digits huge_qty)"
  unfolding nat_of_digits_huge by simp

lemma int_to_float_huge: "int_to_float (int (nat_of_digits huge_qty)) = None"
proof -
  have "(2::rat) ^ 1024 \<le> of_int (int (nat_of_digits huge_qty))"
    unfolding nat_of_digits_huge by simp
  then have "rn (of_int (int (nat_of_digits huge_qty))) = PInf" by (rule rn_overflow)
  then show ?thesis by (simp add: int_to_float_def)
qed

lemma noise_loop_widget:
  "noise_loop [raw_line ''WIDGET'' ''10.00'' q ''''] = [raw_line ''WIDGET'' ''10.00'' q '''']"
  by (simp add: noise_loop_def noise_step_def qty_match_def noise_match_def member_match_def
        has_tpd_marker_def raw_line_def str_defs)

lemma not_discount_plain: "\<not> is_discount_line (raw_line ''WIDGET'' ''10.00'' q '''')"
  unfolding is_discount_line_def clean_price_10_00
  by (simp add: raw_line_def has_tpd_marker_def str_defs)

text \<open>Claim C9 (normalization never raises) fails on a quantity of 310 digits: the
  quantity parses as an integer greater than 1, the price parses, and the true
  division \<open>p / q\<close> of a float by an integer beyond the float range raises
  \<open>OverflowError\<close>, which the handler \<open>except (ValueError, ZeroDivisionError)\<close> does
  not catch. By \<open>post_process_errors\<close> this is the only exception of the pass.\<close>

theorem overflow_on_huge_qty:
  "post_process [raw_line ''WIDGET'' ''10.00'' huge_qty ''''] = Inl OverflowError"
proof -
  let ?item = "set_defaults ''10.00'' (raw_line ''WIDGET'' ''10.00'' huge_qty '''')"
  have q: "py_int (get (qty ?item) ''1'') = Some (int (nat_of_digits huge_qty))"
    by (simp add: set_defaults_def raw_line_sel get_def py_int_huge)
  have p: "price ?item = Some ''10.00''"
    by (simp add: set_defaults_def remove_char_def)
  have "check_qty ?item = Inl OverflowError"
    using q huge_gt_1 p py_float_10_00 int_to_float_huge by (rule check_qty_overflow)
  then have "finalize (raw_line ''WIDGET'' ''10.00'' huge_qty '''') = Inl OverflowError"
    unfolding finalize_def clean_price_10_00 by simp
  then show ?thesis
    by (simp add: post_process_def noise_loop_widget merge_step_def not_discount_plain)
qed


subsection \<open>The matcher on concrete inputs\<close>

lemma stored_deal_sel:
  "item_name (stored_deal nm num s) = nm" "d_item_number (stored_deal nm num s) = Some num"
  "sale_price (stored_deal nm num s) = s" "source (stored_deal nm num s) = Some ''cocowest.ca''"
  "link (stored_deal nm num s) = Some ''''" "promo_end (stored_deal nm num s) = Some ''''"
  "scanned_date (stored_deal nm num s) = Some ''2025-01-15T10:00:00''"
  by (simp_all add: stored_deal_def)

lemma bought_sel:
  "ri_name (bought nm num paid) = nm" "ri_price (bought nm num paid) = paid"
  "ri_original_price (bought nm num paid) = ''''" "ri_item_number (bought nm num paid) = num"
  "ri_receipt_date (bought nm num paid) = ''2025-01-10''" "ri_tpd (bought nm num paid) = False"
  by (simp_all add: bought_def)




lemma py_float_7_00: "py_float ''7.00'' = Some (Finite 7)"
  by (simp add: str_defs num_defs rn_numeral)

lemma py_float_5_00: "py_float ''5.00'' = Some (Finite 5)"
  by (simp add: str_defs num_defs rn_numeral)

lemma py_float_25_00: "py_float ''25.00'' = Some (Finite 25)"
  by (simp add: str_defs num_defs rn_numeral)

lemma round2_numeral:
  "numeral n * 100 < (2::int) ^ 53 \<Longrightarrow> round2 (Finite (numeral n)) = Finite (numeral n)"
proof -
  assume a: "numeral n * 100 < (2::int) ^ 53"
  have "(0::int) < numeral n" by simp
  then have "numeral n < (2::int) ^ 53" using a by linarith
  then have r: "rn (numeral n) = Finite (numeral n)" by (rule rn_numeral)
  have "(numeral n :: rat) * 100 = of_int (numeral n * 100)" by simp
  then have h: "round_half_even (numeral n * 100) = numeral n * 100"
    by (simp only: rhe_of_int)
  have "round2 (Finite (numeral n)) = rn (of_int (numeral n * 100) / 100)"
    by (simp only: round2.simps h)
  also have "(of_int (numeral n * 100) :: rat) / 100 = numeral n" by simp
  finally show ?thesis using r by simp
qed



lemma price_check_7_5: "price_check ''7.00'' ''5.00'' = Some (Finite 2)"
  by (simp add: price_check_def py_float_7_00 py_float_5_00 fge_def fgt_def feq_def
        rn_numeral round2_numeral del: round2.simps)




lemma classify_exact:
  "classify ''1234567'' ws (stored_deal nm ''1234567'' s) = Some exact_item_number"
  by (simp add: classify_def stored_deal_sel get_def truthy_def)






subsection \<open>A deal whose price is not a number\<close>





subsection \<open>A difference below half a cent\<close>

lemma rn_10_001: "rn (10001 / 1000) = Finite (5630062484166541 / 562949953421312)"
  using rn_eval[of "10001 / 1000" 3 5630062484166541] by simp

lemma py_float_10_001: "py_float ''10.001'' = Some (Finite (5630062484166541 / 562949953421312))"
  by (simp add: str_defs num_defs rn_10_001)

lemma price_check_below_cent: "price_check ''10.001'' ''10.00'' = Some (Finite 0)"
proof -
  have d: "fsub (Finite (5630062484166541 / 562949953421312)) (Finite 10) =
             Finite (562949953421 / 562949953421312)"
    using rn_exact[of "562949953421 / 562949953421312" 562949953421 "- 49"] by simp
  have "round_half_even (562949953421 / 562949953421312 * 100) = 0"
    by (rule rhe_eval) simp_all
  then have r: "round2 (Finite (562949953421 / 562949953421312)) = Finite 0"
    by (simp add: rn_def)
  have g: "\<not> fge (Finite 10) (Finite (5630062484166541 / 562949953421312))"
    by (simp add: fge_def fgt_def feq_def)
  show ?thesis
    unfolding price_check_def py_float_10_001 py_float_10_00 using g
    by (simp only: option.case if_False d r)
qed

lemma sort_key_single: "sort_key f [x] = [x]"
  by simp

text \<open>Claim C3 requires strictly positive savings. An item paid 10.001 against a deal
  at 10.00 passes the check \<open>deal >= paid\<close>, and its savings round to 0.0.\<close>

theorem zero_savings_counterexample:
  "map savings (find_potential_matches [bought ''WIDGET'' ''1234567'' ''10.001'']
                  [stored_deal ''WIDGET DEAL'' ''1234567'' ''10.00'']) = [Finite 0]"
proof -
  have "\<exists>m. match_deal (bought ''WIDGET'' ''1234567'' ''10.001'')
              (stored_deal ''WIDGET DEAL'' ''1234567'' ''10.00'') = Some m \<and>
            savings m = Finite 0"
    by (simp add: match_deal_def bought_sel stored_deal_sel classify_exact price_check_below_cent)
  then obtain m where m: "match_deal (bought ''WIDGET'' ''1234567'' ''10.001'')
      (stored_deal ''WIDGET DEAL'' ''1234567'' ''10.00'') = Some m" "savings m = Finite 0"
    by blast
  show ?thesis
    by (simp add: find_potential_matches_def candidates_of_def best_match_def ri_matches_def
          List.map_filter_def m truncate_fields)
qed

subsection \<open>The end-to-end example of the specification\<close>

lemma rn_29_99: "rn (2999 / 100) = Finite (8441434551552573 / 281474976710656)"
  using rn_eval[of "2999 / 100" 4 8441434551552573] by simp

lemma py_float_29_99: "py_float ''29.99'' = Some (Finite (8441434551552573 / 281474976710656))"
  by (simp add: str_defs num_defs rn_29_99)

lemma matches_widget:
  "find_potential_matches [bought ''WIDGET'' ''1234567'' ''7.00'']
     [stored_deal ''WIDGET DEAL'' ''1234567'' ''5.00''] =
   [\<lparr>receipt_item = ''WIDGET'', receipt_price = ''7.00'', c_original_price = '''',
     receipt_item_number = ''1234567'', receipt_date = ''2025-01-10'',
     tpd_at_purchase = False, deal_name = ''WIDGET DEAL'', deal_price = ''5.00'',
     deal_item_number = ''1234567'', deal_source = ''cocowest.ca'', deal_link = '''',
     deal_expiry = '''', matched_by = exact_item_number, savings = Finite 2\<rparr>]"
proof -
  have "classify ''1234567'' (ri_words ''WIDGET'') (stored_deal ''WIDGET DEAL'' ''1234567'' ''5.00'')
          = Some exact_item_number"
    by (rule classify_exact)
  then show ?thesis
    by (simp add: find_potential_matches_def candidates_of_def best_match_def ri_matches_def
          List.map_filter_def match_deal_def bought_sel stored_deal_sel price_check_7_5 get_def
          candidate.truncate_def)
qed

text \<open>Claim C3 on two pairs: an item paid 7.00 against a deal at 5.00 gives one
  candidate with savings \<open>round(7.00 - 5.00, 2)\<close>; a deal at 29.99 against an item
  paid 25.00 gives no match.\<close>

theorem candidate_price_check_witness:
  "(\<exists>c. find_potential_matches [bought ''WIDGET'' ''1234567'' ''7.00'']
          [stored_deal ''WIDGET DEAL'' ''1234567'' ''5.00''] = [c] \<and>
        py_float (receipt_price c) = Some (Finite 7) \<and>
        py_float (deal_price c) = Some (Finite 5) \<and>
        savings c = round2 (fsub (Finite 7) (Finite 5)) \<and>
        fge (savings c) (Finite 0)) \<and>
   match_deal (bought ''WIDGET'' ''1234567'' ''25.00'')
     (stored_deal ''WIDGET DEAL'' ''1234567'' ''29.99'') = None"
proof -
  let ?c = "\<lparr>receipt_item = ''WIDGET'', receipt_price = ''7.00'', c_original_price = '''',
     receipt_item_number = ''1234567'', receipt_date = ''2025-01-10'',
     tpd_at_purchase = False, deal_name = ''WIDGET DEAL'', deal_price = ''5.00'',
     deal_item_number = ''1234567'', deal_source = ''cocowest.ca'', deal_link = '''',
     deal_expiry = '''', matched_by = exact_item_number, savings = Finite 2\<rparr>"
  let ?ri = "bought ''WIDGET'' ''1234567'' ''25.00''"
  let ?d = "stored_deal ''WIDGET DEAL'' ''1234567'' ''29.99''"
  have mem: "?c \<in> set (find_potential_matches [bought ''WIDGET'' ''1234567'' ''7.00'']
                          [stored_deal ''WIDGET DEAL'' ''1234567'' ''5.00''])"
    unfolding matches_widget by simp
  have dear: "py_float (ri_price ?ri) = None \<or> py_float (sale_price ?d) = None \<or>
    (\<exists>paid deal. py_float (ri_price ?ri) = Some paid \<and> py_float (sale_price ?d) = Some deal \<and>
                  fge deal paid)"
    by (simp add: bought_sel stored_deal_sel py_float_25_00 py_float_29_99 fge_def fgt_def)
  have both: "(\<exists>paid deal.
         py_float (receipt_price ?c) = Some paid \<and> py_float (deal_price ?c) = Some deal \<and>
         \<not> fge deal paid \<and> savings ?c = round2 (fsub paid deal) \<and>
         (paid \<noteq> NaN \<and> deal \<noteq> NaN \<longrightarrow> flt deal paid \<and> fge (savings ?c) (Finite 0)))"
    "match_deal ?ri ?d = None"
    using candidate_price_check[of ?c "[bought ''WIDGET'' ''1234567'' ''7.00'']"
        "[stored_deal ''WIDGET DEAL'' ''1234567'' ''5.00'']" ?ri ?d] mem dear
    by blast+
  from both(1) obtain paid deal where pd: "py_float ''7.00'' = Some paid"
    "py_float ''5.00'' = Some deal" "savings ?c = round2 (fsub paid deal)"
    "paid \<noteq> NaN \<and> deal \<noteq> NaN \<longrightarrow> fge (savings ?c) (Finite 0)"
    by auto
  have "paid = Finite 7" "deal = Finite 5"
    using pd(1,2) by (simp_all add: py_float_7_00 py_float_5_00)
  then have "py_float (receipt_price ?c) = Some (Finite 7) \<and>
        py_float (deal_price ?c) = Some (Finite 5) \<and>
        savings ?c = round2 (fsub (Finite 7) (Finite 5)) \<and>
        fge (savings ?c) (Finite 0)"
    using pd by (simp add: py_float_7_00 py_float_5_00 del: round2.simps fsub.simps)
  then show ?thesis using matches_widget both(2) by blast
qed

subsection \<open>The deal filter on concrete inputs\<close>

lemma date_keys_promo:
  "date_from_key ((stored_deal nm num s)\<lparr>promo_end := Some ''2025-03-01''\<rparr>) = ''2025-03-01''"
  "date_to_key ((stored_deal nm num s)\<lparr>promo_end := Some ''2025-03-01''\<rparr>) = ''2025-01-15''"
  "spec_effective_date ((stored_deal nm num s)\<lparr>promo_end := Some ''2025-03-01''\<rparr>) =
     ''2025-03-01''"
  by (simp_all add: date_from_key_def date_to_key_def spec_effective_date_def py_or_def
        truthy_def get_def stored_deal_def)

lemma date_order:
  "''2025-01-15'' \<le> ''2025-02-01''" "\<not> ''2025-03-01'' \<le> ''2025-02-01''"
  "''2025-01-01'' \<le> ''2025-03-01''"
  by simp_all

text \<open>Claim C4 uses the effective date for both bounds. A deal scanned on 2025-01-15
  whose promotion ends on 2025-03-01 has the effective date 2025-03-01, after
  the upper bound 2025-02-01; the filter of the code keeps it, because it tests
  the upper bound on the scan date, while the filter of the specification
  removes it.\<close>

theorem upper_bound_key_counterexample:
  "filter_deals None None (Some ''2025-02-01'')
     [(stored_deal ''WIDGET DEAL'' ''1234567'' ''5.00'')\<lparr>promo_end := Some ''2025-03-01''\<rparr>] =
   [(stored_deal ''WIDGET DEAL'' ''1234567'' ''5.00'')\<lparr>promo_end := Some ''2025-03-01''\<rparr>] \<and>
   spec_filter_deals None None (Some ''2025-02-01'')
     [(stored_deal ''WIDGET DEAL'' ''1234567'' ''5.00'')\<lparr>promo_end := Some ''2025-03-01''\<rparr>] =
   []"
  by (simp add: filter_deals_def spec_filter_deals_def given_def truthy_def get_def
        date_keys_promo date_order)

text \<open>Claim C4 on two deals, with sources, lower and upper bound given: the deal of
  an allowed source is kept on its two keys, the deal of another source is
  removed.\<close>

theorem filter_deals_keeps_witness:
  "filter_deals (Some [''cocowest.ca'']) (Some ''2025-01-01'') (Some ''2025-02-01'')
     [(stored_deal ''WIDGET DEAL'' ''1234567'' ''5.00'')\<lparr>promo_end := Some ''2025-03-01''\<rparr>,
      (stored_deal ''OTHER DEAL'' ''7654321'' ''9.00'')
        \<lparr>promo_end := Some ''2025-03-01'', source := Some ''reddit.com/r/Costco''\<rparr>] =
   [(stored_deal ''WIDGET DEAL'' ''1234567'' ''5.00'')\<lparr>promo_end := Some ''2025-03-01''\<rparr>]"
proof -
  have s: "source ((stored_deal nm num s)\<lparr>promo_end := Some ''2025-03-01''\<rparr>) =
             Some ''cocowest.ca''" for nm num s
    by (simp add: stored_deal_def)
  show ?thesis
    using filter_deals_keeps[of "Some [''cocowest.ca'']" "Some ''2025-01-01''"
        "Some ''2025-02-01''"
        "[(stored_deal ''WIDGET DEAL'' ''1234567'' ''5.00'')\<lparr>promo_end := Some ''2025-03-01''\<rparr>,
          (stored_deal ''OTHER DEAL'' ''7654321'' ''9.00'')
            \<lparr>promo_end := Some ''2025-03-01'', source := Some ''reddit.com/r/Costco''\<rparr>]"]
    by (simp add: given_def get_def date_keys_promo date_order s)
qed

subsection \<open>Classification on concrete inputs\<close>

lemmas token_defs = kept_tokens_def tokens_space tokens_char tokens_Nil is_space_def
  lower_char_def char_of_eq_iff eq_char_of_iff stop_list_def

lemma kept_slash:
  "kept_tokens ''ALDO/COURT with SHOE XL'' = [''aldo'', ''court'', ''shoe'']"
  by (simp add: token_defs)

lemma lower_aldo: "map lower_char ''Aldo Court Shoe'' = ''aldo court shoe''"
  by (simp add: lower_char_def char_of_eq_iff)

lemma lower_court: "map lower_char ''Court runner'' = ''court runner''"
  by (simp add: lower_char_def char_of_eq_iff)

lemma lower_rack: "map lower_char ''Shoe rack'' = ''shoe rack''"
  by (simp add: lower_char_def char_of_eq_iff)

lemma spec_keyword_match:
  "spec_classify ''1234567'' {''aldo'', ''court'', ''shoe''}
     (stored_deal ''Aldo Court Shoe'' '''' ''14.00'') = Some name_keyword"
proof -
  have "{w \<in> {''aldo'', ''court'', ''shoe''}. sublist w ''aldo court shoe''} =
          {''aldo'', ''court'', ''shoe''}"
    by (auto simp: sublist_Cons_right)
  then show ?thesis
    unfolding spec_classify_def stored_deal_sel lower_aldo
    by (simp add: rule_exact_def rule_partial_def rule_keyword_def get_def)
qed

lemma spec_partial_match:
  "spec_classify ''1234567'' K (stored_deal ''ALDO RUNNER'' ''1234599'' ''15.00'') =
     Some partial_item_number"
  by (simp add: spec_classify_def rule_exact_def rule_partial_def stored_deal_sel get_def)

lemma spec_no_match:
  "spec_classify ''1234567'' {''aldo'', ''court'', ''shoe''}
     (stored_deal ''Court runner'' '''' ''15.00'') = None"
proof -
  have "{w \<in> {''aldo'', ''court'', ''shoe''}. sublist w ''court runner''} = {''court''}"
    by (auto simp: sublist_Cons_right)
  then show ?thesis
    unfolding spec_classify_def stored_deal_sel lower_court
    by (simp add: rule_exact_def rule_partial_def rule_keyword_def get_def)
qed

text \<open>Claim C5 on an item named \<open>ALDO/COURT with SHOE XL\<close>: the matcher's keywords are
  \<open>aldo\<close>, \<open>court\<close> and \<open>shoe\<close>; a deal named after all three is a keyword match, a
  deal whose number shares the first five digits is a partial item-number match,
  and a deal whose name has one of the three keywords is no match.\<close>

theorem classify_by_rules_witness:
  "ri_words ''ALDO/COURT with SHOE XL'' = [''aldo'', ''court'', ''shoe''] \<and>
   classify ''1234567'' (ri_words ''ALDO/COURT with SHOE XL'')
     (stored_deal ''Aldo Court Shoe'' '''' ''14.00'') = Some name_keyword \<and>
   classify ''1234567'' (ri_words ''ALDO/COURT with SHOE XL'')
     (stored_deal ''ALDO RUNNER'' ''1234599'' ''15.00'') = Some partial_item_number \<and>
   classify ''1234567'' (ri_words ''ALDO/COURT with SHOE XL'')
     (stored_deal ''Court runner'' '''' ''15.00'') = None"
proof -
  let ?nm = "''ALDO/COURT with SHOE XL''"
  have d: "distinct (kept_tokens ?nm)" unfolding kept_slash by simp
  have k: "spec_keywords ?nm = {''aldo'', ''court'', ''shoe''}"
    unfolding spec_keywords_def kept_slash by simp
  have w: "ri_words ?nm = [''aldo'', ''court'', ''shoe'']"
    using classify_by_rules[of ?nm "''1234567''" "stored_deal ''Aldo Court Shoe'' '''' ''14.00''"]
    unfolding kept_slash by simp
  have c: "classify ''1234567'' (ri_words ?nm) dl = spec_classify ''1234567'' (spec_keywords ?nm) dl"
    for dl
    using classify_by_rules[of ?nm "''1234567''" dl] d by blast
  show ?thesis
    unfolding c k using w spec_keyword_match spec_partial_match spec_no_match
    unfolding c k by simp
qed

subsection \<open>A repeated token\<close>

lemma kept_repeated: "kept_tokens ''SHOE SHOE'' = [''shoe'', ''shoe'']"
  by (simp add: token_defs)

lemma words_repeated: "ri_words ''SHOE SHOE'' = [''shoe'', ''shoe'']"
  by (simp add: ri_words_def skip_words_def str_defs)

lemma classify_repeated_token:
  "classify '''' [''shoe'', ''shoe''] (stored_deal ''Shoe rack'' '''' ''5.00'') =
     Some name_keyword"
  by (simp add: classify_def stored_deal_sel get_def truthy_def lower_def translate_def
        translate_char_def ascii_lowercase_def ascii_uppercase_def)

lemma spec_repeated_token:
  "spec_classify '''' {''shoe''} (stored_deal ''Shoe rack'' '''' ''5.00'') = None"
  unfolding spec_classify_def stored_deal_sel lower_rack
  by (simp add: rule_exact_def rule_partial_def rule_keyword_def get_def sublist_Cons_right)

text \<open>Claim C5 reads the keywords as a set. The item name \<open>SHOE SHOE\<close> has the one
  keyword \<open>shoe\<close>, of four characters, so that by the keyword rule of the
  specification a deal named \<open>Shoe rack\<close> is no match. The matcher counts the
  token twice and returns a keyword match.\<close>

theorem repeated_token_counterexample:
  "classify '''' (ri_words ''SHOE SHOE'') (stored_deal ''Shoe rack'' '''' ''5.00'') =
     Some name_keyword \<and>
   spec_classify '''' (spec_keywords ''SHOE SHOE'') (stored_deal ''Shoe rack'' '''' ''5.00'') =
     None"
proof -
  have "spec_keywords ''SHOE SHOE'' = {''shoe''}"
    unfolding spec_keywords_def kept_repeated by simp
  then show ?thesis
    unfolding words_repeated by (simp add: classify_repeated_token spec_repeated_token)
qed

end
